theory Spec2Isabelle
  imports Complex_Main "HOL-Library.Word" "HOL-Library.Char_ord"
begin

section \<open>Numbers, images and the document writer\<close>

text \<open>
  The generators compute page geometry with JavaScript numbers. Lengths and
  coordinates are modelled as exact rationals: the comparisons and the
  arithmetic of the source are kept as written, rounding of IEEE doubles is
  not modelled. Pixel counts and item counts are naturals, colour channels
  are bytes (the canvas hands out a \<open>Uint8ClampedArray\<close>).
\<close>

type_synonym num = rat

datatype image_format = JPEG | PNG

text \<open>A decoded image: what \<open>new Image()\<close> holds once \<open>onload\<close> has fired.\<close>

record raster =
  rwidth :: nat
  rheight :: nat
  rdata :: "8 word list"

text \<open>
  An embeddable image string. \<open>canvas.toDataURL\<close> is kept symbolic: the
  value records the format, the quality handed to the encoder (none for PNG),
  the canvas size and the canvas bytes (RGBA) that were encoded. The images
  of the two barcode renderers (JsBarcode at the standard and at the 4x
  tier) are kept symbolic in the same way, by their payload.
\<close>

datatype data_url = Encoded image_format "num option" nat nat "8 word list"

datatype barcode = BarcodeStandard string | BarcodeHighQuality string

datatype element =
    TextEl string num num
  | ImageEl data_url num num num num
  | BarcodeEl barcode num num num num
  | LineEl num num num num

text \<open>
  The jsPDF document: a page size and the pages in order, each the list of
  elements placed on it in order. The last page is the current one. Fonts,
  colours and line widths are not modelled.
\<close>

record document =
  page_width :: num
  page_height :: num
  pages :: "element list list"

definition new_jsPDF :: "num \<Rightarrow> num \<Rightarrow> document" where
  "new_jsPDF w h = \<lparr>page_width = w, page_height = h, pages = [[]]\<rparr>"

definition addPage :: "document \<Rightarrow> document" where
  "addPage d = d\<lparr>pages := pages d @ [[]]\<rparr>"

fun put :: "element \<Rightarrow> element list list \<Rightarrow> element list list" where
  "put e [] = [[e]]"
| "put e [p] = [p @ [e]]"
| "put e (p # ps) = p # put e ps"

definition place :: "element \<Rightarrow> document \<Rightarrow> document" where
  "place e d = d\<lparr>pages := put e (pages d)\<rparr>"

definition page_count :: "document \<Rightarrow> nat" where
  "page_count d = length (pages d)"

subsection \<open>Page helpers\<close>

definition getPageSize :: "document \<Rightarrow> num \<times> num" where
  "getPageSize d = (page_width d, page_height d)"

text \<open>
  \<open>ensureSpace(doc, y, neededHeight, margin = 20)\<close>; the result is the
  document (with a page added or not) and the cursor.
\<close>

definition ensureSpace :: "document \<Rightarrow> num \<Rightarrow> num \<Rightarrow> num \<Rightarrow> document \<times> num" where
  "ensureSpace d y neededHeight margin =
     (let height = snd (getPageSize d) in
      if y + neededHeight > height - margin then (addPage d, margin) else (d, y))"

section \<open>Image acquisition and transform\<close>

text \<open>
  What the browser contributes is a parameter of the model:
  \<^item> \<open>image_onload url\<close> is the decoded image when \<open>img.onload\<close> fires
    for \<open>img.src = url\<close>, and \<open>None\<close> when \<open>img.onerror\<close> fires instead
    (network error, decode error, CORS rejection);
  \<^item> \<open>canvas_bytes fill img\<close> is the RGBA content of a canvas of the image's
    size after the optional white \<open>fillRect\<close> (\<open>fill\<close>) and
    \<open>drawImage(img, 0, 0)\<close>;
  \<^item> \<open>canvas_store px\<close> is what the canvas holds of a partly transparent
    pixel \<open>(r, g, b, a)\<close> written by \<open>putImageData\<close> (the rounding of its
    premultiplied store);
  \<^item> \<open>verify d\<close> is the outcome of the second decode that measures a loaded
    image before the fill-page placement;
  \<^item> \<open>paper_width\<close> and \<open>paper_height\<close> are the size jsPDF gives its
    pages (A4, in millimetres, for every document the generators create).
\<close>

datatype probe = Measured nat nat | ProbeError | ProbeTimeout

record env =
  image_onload :: "string \<Rightarrow> raster option"
  canvas_bytes :: "bool \<Rightarrow> raster \<Rightarrow> 8 word list"
  canvas_store ::
    "8 word \<times> 8 word \<times> 8 word \<times> 8 word \<Rightarrow> 8 word \<times> 8 word \<times> 8 word \<times> 8 word"
  verify :: "data_url \<Rightarrow> probe"
  paper_width :: num
  paper_height :: num

subsection \<open>Dark-pixel suppression\<close>

text \<open>
  Reading a typed array past its end gives \<open>undefined\<close>, and
  \<open>undefined < 50\<close> is false; writing past its end does nothing (as
  \<open>list_update\<close> does).
\<close>

definition channel :: "8 word list \<Rightarrow> nat \<Rightarrow> 8 word option" where
  "channel data i = (if i < length data then Some (data ! i) else None)"

fun below :: "8 word option \<Rightarrow> 8 word \<Rightarrow> bool" where
  "below None t = False"
| "below (Some v) t = (v < t)"

definition threshold :: "8 word" where
  "threshold = 50"

text \<open>The loop \<open>for (let i = 0; i < data.length; i += 4)\<close>, from index \<open>i\<close>.\<close>

function threshold_loop :: "nat \<Rightarrow> 8 word list \<Rightarrow> 8 word list" where
  "threshold_loop i data =
     (if i < length data then
        (let r = channel data i; g = channel data (i + 1); b = channel data (i + 2) in
         if below r threshold \<and> below g threshold \<and> below b threshold
         then threshold_loop (i + 4) (data[i := 255, i + 1 := 255, i + 2 := 255])
         else threshold_loop (i + 4) data)
      else data)"
  by pat_completeness auto
termination
  by (relation "measure (\<lambda>(i, data). length data - i)") auto

text \<open>
  \<open>ctx.putImageData(imageData, 0, 0)\<close>, as the encoder then reads the
  canvas: the canvas keeps its pixels premultiplied by alpha, so an opaque
  pixel is kept byte for byte, a fully transparent pixel is kept as
  \<open>(0, 0, 0, 0)\<close> whatever its colour bytes were, and a partly transparent
  pixel as the browser rounds it.
\<close>

fun putImageData :: "env \<Rightarrow> 8 word list \<Rightarrow> 8 word list" where
  "putImageData e (r # g # b # a # rest) =
     (if a = 255 then [r, g, b, a]
      else if a = 0 then [0, 0, 0, 0]
      else (case canvas_store e (r, g, b, a) of (r', g', b', a') \<Rightarrow> [r', g', b', a'])) @
     putImageData e rest"
| "putImageData e bytes = bytes"

subsection \<open>Loaders of the three-page engine\<close>

datatype load_error = LoadFailed string

text \<open>
  \<open>loadImageAsBase64(url, quality = 0.5, applyThreshold = true, format = "jpeg")\<close>:
  the promise is rejected (\<open>Inl\<close>) when \<open>img.onerror\<close> fires.
\<close>

definition loadImageAsBase64 ::
  "env \<Rightarrow> string \<Rightarrow> num \<Rightarrow> bool \<Rightarrow> image_format \<Rightarrow> load_error + data_url" where
  "loadImageAsBase64 e url quality applyThreshold format =
     (case image_onload e url of
        None \<Rightarrow> Inl (LoadFailed url)
      | Some img \<Rightarrow>
          (let canvas = canvas_bytes e (format \<noteq> PNG) img;
               data = (if applyThreshold then putImageData e (threshold_loop 0 canvas)
                       else canvas)
           in if format = PNG
              then Inr (Encoded PNG None (rwidth img) (rheight img) data)
              else Inr (Encoded JPEG (Some quality) (rwidth img) (rheight img) data)))"

text \<open>
  A JavaScript value that is a string or missing; \<open>truthy\<close> is what
  \<open>if (url)\<close> and \<open>a || b\<close> test.
\<close>

fun truthy :: "string option \<Rightarrow> bool" where
  "truthy None = False"
| "truthy (Some s) = (s \<noteq> [])"

definition js_or :: "string option \<Rightarrow> string option \<Rightarrow> string option" where
  "js_or a b = (if truthy a then a else b)"

fun js_String :: "string option \<Rightarrow> string" where
  "js_String None = ''undefined''"
| "js_String (Some s) = s"

definition safeLoadImage :: "env \<Rightarrow> string option \<Rightarrow> num \<Rightarrow> data_url option" where
  "safeLoadImage e url quality =
     (case loadImageAsBase64 e (js_String url) quality True JPEG of
        Inl err \<Rightarrow> None
      | Inr imageData \<Rightarrow> Some imageData)"

definition safeLoadCustomImage :: "env \<Rightarrow> string option \<Rightarrow> data_url option" where
  "safeLoadCustomImage e url =
     (if \<not> truthy url then None
      else case loadImageAsBase64 e (js_String url) 1 False PNG of
             Inl err \<Rightarrow> None
           | Inr imageData \<Rightarrow> Some imageData)"

subsection \<open>Loaders of the flowing generator\<close>

text \<open>
  \<open>loadImageAsBase64(url, quality = 0.5, applyThreshold = true)\<close> of
  \<open>pdfGenerator.js\<close>: the canvas is always filled white and the output is
  always JPEG.
\<close>

definition loadImageAsBase64_flow ::
  "env \<Rightarrow> string \<Rightarrow> num \<Rightarrow> bool \<Rightarrow> load_error + data_url" where
  "loadImageAsBase64_flow e url quality applyThreshold =
     (case image_onload e url of
        None \<Rightarrow> Inl (LoadFailed url)
      | Some img \<Rightarrow>
          (let canvas = canvas_bytes e True img;
               data = (if applyThreshold then putImageData e (threshold_loop 0 canvas)
                       else canvas)
           in Inr (Encoded JPEG (Some quality) (rwidth img) (rheight img) data)))"

definition safeLoadImage_flow :: "env \<Rightarrow> string option \<Rightarrow> num \<Rightarrow> data_url option" where
  "safeLoadImage_flow e url quality =
     (case loadImageAsBase64_flow e (js_String url) quality True of
        Inl err \<Rightarrow> None
      | Inr imageData \<Rightarrow> Some imageData)"

definition safeLoadCustomImage_flow :: "env \<Rightarrow> string option \<Rightarrow> data_url option" where
  "safeLoadCustomImage_flow e url =
     (case loadImageAsBase64_flow e (js_String url) (3 / 4) False of
        Inl err \<Rightarrow> None
      | Inr imageData \<Rightarrow> Some imageData)"

section \<open>Orders, items and text formatting\<close>

text \<open>
  The fields of an item the generators read; a missing field is \<open>None\<close>.
  Strings are ASCII (one \<open>char\<close> per UTF-16 unit).
\<close>

record item =
  imageUrl :: "string option"
  renderedImageUrl :: "string option"
  shirtImageUrl :: "string option"
  productImageUrl :: "string option"
  sku :: "string option"
  productSku :: "string option"
  quantity :: "nat option"
  qty :: "nat option"
  sizeInfo :: "string option"
  variantSize :: "string option"
  name :: "string option"

record order =
  orderId :: string
  items :: "item list"

definition digit :: "nat \<Rightarrow> char" where
  "digit n = ''0123456789'' ! n"

text \<open>The decimal text a template literal gives a non-negative integer.\<close>

fun show_nat :: "nat \<Rightarrow> string" where
  "show_nat n = (if n < 10 then [digit n] else show_nat (n div 10) @ [digit (n mod 10)])"

declare show_nat.simps [simp del]

definition is_space :: "char \<Rightarrow> bool" where
  "is_space c = (c \<in> {CHR '' '', CHR 0x09, CHR 0x0A, CHR 0x0B, CHR 0x0C, CHR 0x0D})"

definition trim :: "string \<Rightarrow> string" where
  "trim s = rev (dropWhile is_space (rev (dropWhile is_space s)))"

text \<open>\<open>s.split(/\s+/)\<close>\<close>

fun split_ws :: "string \<Rightarrow> string list" where
  "split_ws [] = [[]]"
| "split_ws (c # cs) =
     (if is_space c then
        (case cs of
           [] \<Rightarrow> [] # split_ws cs
         | c' # cs' \<Rightarrow> if is_space c' then split_ws cs else [] # split_ws cs)
      else
        (case split_ws cs of
           [] \<Rightarrow> [[c]]
         | w # ws \<Rightarrow> (c # w) # ws))"

fun join :: "string \<Rightarrow> string list \<Rightarrow> string" where
  "join sep [] = []"
| "join sep [w] = w"
| "join sep (w # ws) = w @ sep @ join sep ws"

definition formatSizeForPdf :: "string option \<Rightarrow> string" where
  "formatSizeForPdf sizeText =
     (case sizeText of
        None \<Rightarrow> ''N/A''
      | Some s \<Rightarrow>
          if s = [] then ''N/A''
          else let trimmed = trim s in
            if trimmed = [] then ''N/A''
            else join '' ''
                   (map (\<lambda>part. if length part \<ge> 2 then hd part # CHR ''-'' # tl part else part)
                        (split_ws trimmed)))"

fun or_else :: "string option \<Rightarrow> string \<Rightarrow> string" where
  "or_else None dflt = dflt"
| "or_else (Some s) dflt = (if s = [] then dflt else s)"

text \<open>\<open>item.quantity || item.qty || 1\<close>: zero is falsy.\<close>

definition quantity_of :: "item \<Rightarrow> nat" where
  "quantity_of it =
     (case quantity it of
        Some (Suc n) \<Rightarrow> Suc n
      | _ \<Rightarrow> (case qty it of Some (Suc n) \<Rightarrow> Suc n | _ \<Rightarrow> 1))"

section \<open>Image drawers and barcodes\<close>

text \<open>\<open>doc.getImageProperties\<close>: the pixel size of an embeddable image.\<close>

fun getImageProperties :: "data_url \<Rightarrow> nat \<times> nat" where
  "getImageProperties (Encoded f q w h bytes) = (w, h)"

definition addImage :: "data_url \<Rightarrow> num \<Rightarrow> num \<Rightarrow> num \<Rightarrow> num \<Rightarrow> document \<Rightarrow> document" where
  "addImage imgData x y w h d = place (ImageEl imgData x y w h) d"

text \<open>\<open>addFullWidthImage(doc, imgData, y, margin = 15)\<close>, returning the height used.\<close>

definition addFullWidthImage :: "document \<Rightarrow> data_url \<Rightarrow> num \<Rightarrow> num \<Rightarrow> document \<times> num" where
  "addFullWidthImage d imgData y margin =
     (let width = fst (getPageSize d);
          usableWidth = width - margin * 2;
          props = getImageProperties imgData;
          ratio = of_nat (fst props) / of_nat (snd props);
          imgWidth = usableWidth;
          imgHeight = imgWidth / ratio
      in (addImage imgData margin y imgWidth imgHeight d, imgHeight))"

text \<open>\<open>addBarcode(doc, text, y)\<close> of the flowing generator and the three-page engine.\<close>

definition addBarcode :: "document \<Rightarrow> string \<Rightarrow> num \<Rightarrow> document \<times> num" where
  "addBarcode d payload y =
     (let img = BarcodeStandard payload;
          width = fst (getPageSize d);
          w = 85;
          h = 35;
          x = (width - w) / 2
      in (place (BarcodeEl img x y w h) d, h))"

definition createHighQualityBarcode :: "string \<Rightarrow> barcode" where
  "createHighQualityBarcode oid = BarcodeHighQuality oid"

section \<open>The generators\<close>

text \<open>
  The state a generator threads through its loop: the document, the cursor
  \<open>y\<close> and the calls made to \<open>onProgress\<close> so far, oldest first.
  The callback is modelled by whether it was passed (\<open>if (onProgress)\<close>).

  The document writer and the barcode renderer are taken as total:
  \<open>addImage\<close>, \<open>getImageProperties\<close>, \<open>text\<close>, \<open>line\<close>, \<open>save\<close> and
  JsBarcode do not throw in the model, so a run always ends by saving. An
  image reported with a zero side would make the drawers divide by zero
  (\<open>Infinity\<close> or \<open>NaN\<close> in JavaScript, 0 here); the statements about
  placements are about images with positive sides or speak of the display
  height itself.
\<close>

record gstate =
  st_doc :: document
  st_y :: num
  st_progress :: "(nat \<times> nat) list"

text \<open>\<open>if (onProgress) onProgress(k, n)\<close>\<close>

definition report :: "bool \<Rightarrow> nat \<Rightarrow> nat \<Rightarrow> gstate \<Rightarrow> gstate" where
  "report onProgress k n st =
     (if onProgress then st\<lparr>st_progress := st_progress st @ [(k, n)]\<rparr> else st)"

definition initial :: "env \<Rightarrow> num \<Rightarrow> gstate" where
  "initial e margin =
     \<lparr>st_doc = new_jsPDF (paper_width e) (paper_height e), st_y = margin, st_progress = []\<rparr>"

subsection \<open>The three-page engine\<close>

text \<open>
  The fill-page placement both generators of the three-page engine compute
  inline for the custom image: position and final size.
\<close>

definition placeFillPage :: "num \<Rightarrow> num \<Rightarrow> nat \<Rightarrow> nat \<Rightarrow> num \<times> num \<times> num \<times> num" where
  "placeFillPage pageWidth pageHeight imgWidth imgHeight =
     (let minMargin = 5;
          availableWidth = pageWidth - (minMargin * 2);
          availableHeight = pageHeight - (minMargin * 2);
          widthScale = availableWidth / of_nat imgWidth;
          heightScale = availableHeight / of_nat imgHeight;
          scale = max widthScale heightScale;
          finalWidth = of_nat imgWidth * scale;
          finalHeight = of_nat imgHeight * scale;
          (finalWidth, finalHeight) =
            (if finalWidth > pageWidth
             then (pageWidth, (pageWidth / of_nat imgWidth) * of_nat imgHeight)
             else (finalWidth, finalHeight));
          (finalWidth, finalHeight) =
            (if finalHeight > pageHeight
             then ((pageHeight / of_nat imgHeight) * of_nat imgWidth, pageHeight)
             else (finalWidth, finalHeight));
          xPos = (pageWidth - finalWidth) / 2;
          yPos = (pageHeight - finalHeight) / 2
      in (xPos, yPos, finalWidth, finalHeight))"

text \<open>
  The size used for the placement: the measured one, 800 x 600 when the
  measuring decode fails or reports a zero side.
\<close>

definition sizing :: "nat \<Rightarrow> nat \<Rightarrow> nat \<times> nat" where
  "sizing imgWidth imgHeight =
     (if imgWidth = 0 \<or> imgHeight = 0 then (800, 600) else (imgWidth, imgHeight))"

text \<open>
  Page 1 of an item. \<open>later\<close> is \<open>i > 0\<close> in \<open>generatePDF\<close> and
  \<open>processedItems > 1\<close> in \<open>generateCombinedPDF\<close>. A timeout of the
  measuring decode rejects inside the \<open>try\<close> block; the \<open>catch\<close> block then
  places the image with the default geometry.
\<close>

definition visualPage :: "env \<Rightarrow> num \<Rightarrow> bool \<Rightarrow> gstate \<Rightarrow> item \<Rightarrow> gstate" where
  "visualPage e margin later st it =
     (let url = js_or (imageUrl it) (renderedImageUrl it) in
      if truthy url then
        (let d = (if later \<or> st_y st > margin then addPage (st_doc st) else st_doc st);
             y = margin;
             customImg = safeLoadCustomImage e url
         in case customImg of
              None \<Rightarrow> st\<lparr>st_doc := d, st_y := y\<rparr>
            | Some img \<Rightarrow>
                (case verify e img of
                   ProbeTimeout \<Rightarrow>
                     (let pageWidth = fst (getPageSize d);
                          defaultWidthMm = pageWidth - (margin * 2);
                          defaultHeightMm = defaultWidthMm * (3 / 4);
                          xPos = (pageWidth - defaultWidthMm) / 2
                      in st\<lparr>st_doc := addImage img xPos y defaultWidthMm defaultHeightMm d,
                            st_y := y\<rparr>)
                 | measured \<Rightarrow>
                     (let (imgWidth, imgHeight) =
                            (case measured of
                               Measured w h \<Rightarrow> sizing w h
                             | _ \<Rightarrow> sizing 800 600);
                          (xPos, yPos, finalWidth, finalHeight) =
                            placeFillPage (fst (getPageSize d)) (snd (getPageSize d))
                              imgWidth imgHeight
                      in st\<lparr>st_doc := addImage img xPos yPos finalWidth finalHeight d,
                            st_y := y\<rparr>)))
      else st)"

text \<open>Page 2 of an item: the page is added, then the shirt image if there is one.\<close>

definition garmentPage :: "env \<Rightarrow> num \<Rightarrow> gstate \<Rightarrow> item \<Rightarrow> gstate" where
  "garmentPage e margin st it =
     (let d = addPage (st_doc st);
          y = margin;
          pageWidth = fst (getPageSize d);
          pageHeight = snd (getPageSize d);
          minMargin = 8;
          shirtUrl = shirtImageUrl it
      in if truthy shirtUrl then
           (case safeLoadCustomImage e shirtUrl of
              None \<Rightarrow> st\<lparr>st_doc := d, st_y := y\<rparr>
            | Some shirtImg \<Rightarrow>
                (let props = getImageProperties shirtImg;
                     r = of_nat (fst props) / of_nat (snd props);
                     maxW = pageWidth - minMargin * 2;
                     maxH = min 130 (pageHeight * (1 / 2));
                     shirtW = min maxW (maxH * r);
                     shirtH = shirtW / r;
                     shirtX = (pageWidth - shirtW) / 2
                 in st\<lparr>st_doc := addImage shirtImg shirtX y shirtW shirtH d, st_y := y\<rparr>))
         else st\<lparr>st_doc := d, st_y := y\<rparr>)"

text \<open>Page 3 of an item: the page is added, then four lines and the barcode of the order.\<close>

definition detailsPage :: "order \<Rightarrow> num \<Rightarrow> gstate \<Rightarrow> item \<Rightarrow> gstate" where
  "detailsPage ord margin st it =
     (let d = addPage (st_doc st);
          y = margin;
          pageWidth = fst (getPageSize d);
          skuText = or_else (sku it) (or_else (productSku it) ''N/A'');
          quantityText = show_nat (quantity_of it);
          sizeText = formatSizeForPdf (js_or (sizeInfo it) (variantSize it));
          nameText = or_else (name it) ''Customizable Product'';
          d = place (TextEl (''Name: '' @ nameText) (pageWidth / 2) y) d;
          y = y + 8;
          d = place (TextEl (''SKU: '' @ skuText) (pageWidth / 2) y) d;
          y = y + 8;
          d = place (TextEl (''Qty: '' @ quantityText) (pageWidth / 2) y) d;
          y = y + 8;
          d = place (TextEl (''Size: '' @ sizeText) (pageWidth / 2) y) d;
          y = y + 12;
          barcodeData = createHighQualityBarcode (orderId ord);
          barcodeWidthMm = 130;
          barcodeHeightMm = 52;
          barcodeX = (pageWidth - barcodeWidthMm) / 2;
          d = place (BarcodeEl barcodeData barcodeX y barcodeWidthMm barcodeHeightMm) d
      in st\<lparr>st_doc := d, st_y := y\<rparr>)"

definition itemPages :: "env \<Rightarrow> num \<Rightarrow> bool \<Rightarrow> order \<Rightarrow> gstate \<Rightarrow> item \<Rightarrow> gstate" where
  "itemPages e margin later ord st it =
     detailsPage ord margin (garmentPage e margin (visualPage e margin later st it) it) it"

text \<open>
  The loop of \<open>generatePDF\<close> from index \<open>i\<close>, over the items from there on.
\<close>

fun generatePDF_loop :: "env \<Rightarrow> bool \<Rightarrow> order \<Rightarrow> nat \<Rightarrow> item list \<Rightarrow> gstate \<Rightarrow> gstate" where
  "generatePDF_loop e onProgress ord i [] st = st"
| "generatePDF_loop e onProgress ord i (it # rest) st =
     generatePDF_loop e onProgress ord (i + 1) rest
       (itemPages e 20 (i > 0) ord (report onProgress (i + 1) (length (items ord)) st) it)"

text \<open>The result is the name of the saved file and the final state.\<close>

definition generatePDF :: "env \<Rightarrow> bool \<Rightarrow> order \<Rightarrow> string \<times> gstate" where
  "generatePDF e onProgress ord =
     (let margin = 20;
          st = generatePDF_loop e onProgress ord 0 (items ord) (initial e margin)
      in (''order-'' @ orderId ord @ ''.pdf'', st))"

definition totalItems :: "order list \<Rightarrow> nat" where
  "totalItems orders = fold (\<lambda>ord acc. acc + length (items ord)) orders 0"

text \<open>
  The inner loop of \<open>generateCombinedPDF\<close>; the counter \<open>processedItems\<close>
  travels with the state.
\<close>

fun combined_items ::
  "env \<Rightarrow> bool \<Rightarrow> nat \<Rightarrow> order \<Rightarrow> item list \<Rightarrow> nat \<times> gstate \<Rightarrow> nat \<times> gstate" where
  "combined_items e onProgress tot ord [] ps = ps"
| "combined_items e onProgress tot ord (it # rest) (processedItems, st) =
     (let processedItems = processedItems + 1 in
      combined_items e onProgress tot ord rest
        (processedItems,
         itemPages e 20 (processedItems > 1) ord
           (report onProgress processedItems tot st) it))"

fun combined_orders ::
  "env \<Rightarrow> bool \<Rightarrow> nat \<Rightarrow> order list \<Rightarrow> nat \<times> gstate \<Rightarrow> nat \<times> gstate" where
  "combined_orders e onProgress tot [] ps = ps"
| "combined_orders e onProgress tot (ord # rest) ps =
     combined_orders e onProgress tot rest
       (combined_items e onProgress tot ord (items ord) ps)"

definition alnum :: "char \<Rightarrow> bool" where
  "alnum c = ((CHR ''a'' \<le> c \<and> c \<le> CHR ''z'') \<or> (CHR ''A'' \<le> c \<and> c \<le> CHR ''Z'') \<or>
              (CHR ''0'' \<le> c \<and> c \<le> CHR ''9''))"

definition safeDateKey :: "string \<Rightarrow> string" where
  "safeDateKey dateKey = map (\<lambda>c. if alnum c then c else CHR ''-'') dateKey"

definition generateCombinedPDF :: "env \<Rightarrow> bool \<Rightarrow> order list \<Rightarrow> string \<Rightarrow> string \<times> gstate" where
  "generateCombinedPDF e onProgress orders dateKey =
     (let margin = 20;
          tot = totalItems orders;
          (processedItems, st) =
            combined_orders e onProgress tot orders (0, initial e margin)
      in (''orders-'' @ safeDateKey dateKey @ ''.pdf'', st))"

subsection \<open>The flowing generator (\<open>pdfGenerator.js\<close>)\<close>

text \<open>
  Each item is a header line, the custom image if it loads, a barcode and a
  separator, placed down the page; every block asks \<open>ensureSpace\<close> first.
  The blocks are the commented sections of the loop body, one definition each.
\<close>

definition headerText :: "order \<Rightarrow> nat \<Rightarrow> string" where
  "headerText ord i =
     ''Order '' @ orderId ord @ '' '' @ [CHR 0xE2, CHR 0x80, CHR 0x94] @ '' Item '' @
     show_nat (i + 1) @ ''/'' @ show_nat (length (items ord))"

definition itemHeader :: "order \<Rightarrow> nat \<Rightarrow> gstate \<Rightarrow> gstate" where
  "itemHeader ord i st =
     (let (d, y) = ensureSpace (st_doc st) (st_y st) 30 20;
          d = place (TextEl (headerText ord i) (fst (getPageSize d) / 2) y) d;
          y = y + 15
      in st\<lparr>st_doc := d, st_y := y\<rparr>)"

definition largeCustomImage :: "env \<Rightarrow> item \<Rightarrow> gstate \<Rightarrow> gstate" where
  "largeCustomImage e it st =
     (case safeLoadCustomImage_flow e (js_or (imageUrl it) (renderedImageUrl it)) of
        None \<Rightarrow> st
      | Some customImg \<Rightarrow>
          (let props = getImageProperties customImg;
               tempHeight =
                 (fst (getPageSize (st_doc st)) - 30) / (of_nat (fst props) / of_nat (snd props));
               (d, y) = ensureSpace (st_doc st) (st_y st) tempHeight 20;
               (d, imgHeight) = addFullWidthImage d customImg y 15;
               y = y + imgHeight;
               y = y + 10
           in st\<lparr>st_doc := d, st_y := y\<rparr>))"

definition barcodeText :: "order \<Rightarrow> nat \<Rightarrow> string" where
  "barcodeText ord i = orderId ord @ ''-'' @ show_nat (i + 1)"

definition barcodeBlock :: "order \<Rightarrow> nat \<Rightarrow> gstate \<Rightarrow> gstate" where
  "barcodeBlock ord i st =
     (let (d, y) = ensureSpace (st_doc st) (st_y st) 60 20;
          (d, h) = addBarcode d (barcodeText ord i) y;
          y = y + h;
          y = y + 15
      in st\<lparr>st_doc := d, st_y := y\<rparr>)"

definition separatorBlock :: "gstate \<Rightarrow> gstate" where
  "separatorBlock st =
     (let (d, y) = ensureSpace (st_doc st) (st_y st) 15 20;
          d = place (LineEl 40 y (fst (getPageSize d) - 40) y) d;
          y = y + 15
      in st\<lparr>st_doc := d, st_y := y\<rparr>)"

definition itemBlocks :: "env \<Rightarrow> order \<Rightarrow> nat \<Rightarrow> gstate \<Rightarrow> item \<Rightarrow> gstate" where
  "itemBlocks e ord i st it =
     separatorBlock (barcodeBlock ord i (largeCustomImage e it (itemHeader ord i st)))"

fun generatePDF_flow_loop ::
  "env \<Rightarrow> bool \<Rightarrow> order \<Rightarrow> nat \<Rightarrow> item list \<Rightarrow> gstate \<Rightarrow> gstate" where
  "generatePDF_flow_loop e onProgress ord i [] st = st"
| "generatePDF_flow_loop e onProgress ord i (it # rest) st =
     generatePDF_flow_loop e onProgress ord (i + 1) rest
       (itemBlocks e ord i (report onProgress (i + 1) (length (items ord)) st) it)"

definition generatePDF_flow :: "env \<Rightarrow> bool \<Rightarrow> order \<Rightarrow> string \<times> gstate" where
  "generatePDF_flow e onProgress ord =
     (let margin = 20;
          st = generatePDF_flow_loop e onProgress ord 0 (items ord) (initial e margin)
      in (''order-'' @ orderId ord @ ''.pdf'', st))"

text \<open>The rule between two orders of a combined document.\<close>

definition orderSeparator :: "gstate \<Rightarrow> gstate" where
  "orderSeparator st =
     (let (d, y) = ensureSpace (st_doc st) (st_y st) 30 20;
          d = place (LineEl 40 y (fst (getPageSize d) - 40) y) d;
          y = y + 20
      in st\<lparr>st_doc := d, st_y := y\<rparr>)"

fun combined_items_flow ::
  "env \<Rightarrow> bool \<Rightarrow> nat \<Rightarrow> order \<Rightarrow> nat \<Rightarrow> item list \<Rightarrow> nat \<times> gstate \<Rightarrow> nat \<times> gstate" where
  "combined_items_flow e onProgress tot ord i [] ps = ps"
| "combined_items_flow e onProgress tot ord i (it # rest) (processedItems, st) =
     (let processedItems = processedItems + 1 in
      combined_items_flow e onProgress tot ord (i + 1) rest
        (processedItems,
         itemBlocks e ord i (report onProgress processedItems tot st) it))"

fun combined_orders_flow ::
  "env \<Rightarrow> bool \<Rightarrow> nat \<Rightarrow> nat \<Rightarrow> order list \<Rightarrow> nat \<times> gstate \<Rightarrow> nat \<times> gstate" where
  "combined_orders_flow e onProgress tot orderIndex [] ps = ps"
| "combined_orders_flow e onProgress tot orderIndex (ord # rest) (processedItems, st) =
     combined_orders_flow e onProgress tot (orderIndex + 1) rest
       (combined_items_flow e onProgress tot ord 0 (items ord)
          (processedItems, if orderIndex > 0 then orderSeparator st else st))"

definition generateCombinedPDF_flow ::
  "env \<Rightarrow> bool \<Rightarrow> order list \<Rightarrow> string \<Rightarrow> string \<times> gstate" where
  "generateCombinedPDF_flow e onProgress orders dateKey =
     (let margin = 20;
          tot = totalItems orders;
          (processedItems, st) =
            combined_orders_flow e onProgress tot 0 orders (0, initial e margin)
      in (''orders-'' @ safeDateKey dateKey @ ''.pdf'', st))"

subsection \<open>The earliest generator\<close>

text \<open>
  Its barcode line: \<open>`${order.orderId}-${item.sku}-${i + 1}`\<close>; a missing
  \<open>sku\<close> prints as \<open>undefined\<close>.
\<close>

definition barcodeText_legacy :: "order \<Rightarrow> item \<Rightarrow> nat \<Rightarrow> string" where
  "barcodeText_legacy ord it i =
     orderId ord @ ''-'' @ js_String (sku it) @ ''-'' @ show_nat (i + 1)"

section \<open>Notions used in the statements\<close>

text \<open>A pixel starts at index \<open>i\<close> and the loop finds it dark.\<close>

definition dark :: "8 word list \<Rightarrow> nat \<Rightarrow> bool" where
  "dark data i =
     (below (channel data i) threshold \<and> below (channel data (i + 1)) threshold \<and>
      below (channel data (i + 2)) threshold)"

text \<open>
  What suppression did to pixel \<open>p\<close> (bytes \<open>4p\<close> to \<open>4p + 3\<close>) between
  \<open>data\<close> and \<open>out\<close>: red, green and blue are 255 if all three were below 50
  and are unchanged otherwise; alpha is unchanged in both cases.
\<close>

definition suppressed :: "8 word list \<Rightarrow> 8 word list \<Rightarrow> nat \<Rightarrow> bool" where
  "suppressed data out p =
     ((if data ! (4 * p) < 50 \<and> data ! (4 * p + 1) < 50 \<and> data ! (4 * p + 2) < 50
       then out ! (4 * p) = 255 \<and> out ! (4 * p + 1) = 255 \<and> out ! (4 * p + 2) = 255
       else out ! (4 * p) = data ! (4 * p) \<and> out ! (4 * p + 1) = data ! (4 * p + 1) \<and>
            out ! (4 * p + 2) = data ! (4 * p + 2)) \<and>
      out ! (4 * p + 3) = data ! (4 * p + 3))"

text \<open>The size the fill-page placement computes before it clamps.\<close>

definition coverSize :: "num \<Rightarrow> num \<Rightarrow> nat \<Rightarrow> nat \<Rightarrow> num \<times> num" where
  "coverSize pageWidth pageHeight imgWidth imgHeight =
     (let scale = max ((pageWidth - 10) / of_nat imgWidth) ((pageHeight - 10) / of_nat imgHeight)
      in (of_nat imgWidth * scale, of_nat imgHeight * scale))"

text \<open>The elements of a details page, for a page of the given width.\<close>

definition detailsElements :: "order \<Rightarrow> num \<Rightarrow> num \<Rightarrow> item \<Rightarrow> element list" where
  "detailsElements ord pageWidth margin it =
     [TextEl (''Name: '' @ or_else (name it) ''Customizable Product'') (pageWidth / 2) margin,
      TextEl (''SKU: '' @ or_else (sku it) (or_else (productSku it) ''N/A''))
        (pageWidth / 2) (margin + 8),
      TextEl (''Qty: '' @ show_nat (quantity_of it)) (pageWidth / 2) (margin + 16),
      TextEl (''Size: '' @ formatSizeForPdf (js_or (sizeInfo it) (variantSize it)))
        (pageWidth / 2) (margin + 24),
      BarcodeEl (BarcodeHighQuality (orderId ord)) ((pageWidth - 130) / 2) (margin + 36) 130 52]"

text \<open>The progress calls \<open>(k + 1, tot), ..., (k + n, tot)\<close>.\<close>

definition ticks :: "nat \<Rightarrow> nat \<Rightarrow> nat \<Rightarrow> (nat \<times> nat) list" where
  "ticks k n tot = map (\<lambda>j. (j, tot)) [k + 1 ..< k + n + 1]"

definition itemCount :: "order list \<Rightarrow> nat" where
  "itemCount orders = sum_list (map (\<lambda>ord. length (items ord)) orders)"

text \<open>The cursor lies between the top margin and the bottom margin of its page.\<close>

definition within_margins :: "num \<Rightarrow> gstate \<Rightarrow> bool" where
  "within_margins margin st =
     (margin \<le> st_y st \<and> st_y st \<le> page_height (st_doc st) - margin)"

text \<open>The height at which the flowing generator shows an image.\<close>

definition displayHeight :: "document \<Rightarrow> data_url \<Rightarrow> num" where
  "displayHeight d img =
     (page_width d - 30) /
     (of_nat (fst (getImageProperties img)) / of_nat (snd (getImageProperties img)))"

text \<open>Everything placed in a document, in order, and the barcodes among it.\<close>

definition elements :: "document \<Rightarrow> element list" where
  "elements d = concat (pages d)"

fun barcodes :: "element list \<Rightarrow> barcode list" where
  "barcodes [] = []"
| "barcodes (BarcodeEl b x y w h # es) = b # barcodes es"
| "barcodes (el # es) = barcodes es"

section \<open>Concrete inputs\<close>

text \<open>
  A browser that serves three small images and fails on every other URL:
  \<open>tall.png\<close> (1 x 2, opaque), \<open>wide.png\<close> (4 x 1, opaque) and \<open>dot.png\<close>
  (1 x 1, one fully transparent pixel). Its canvas shows a transparent
  pixel as white over the white fill and keeps every byte otherwise; none of
  its images has a partly transparent pixel.
\<close>

fun over_white :: "8 word list \<Rightarrow> 8 word list" where
  "over_white (r # g # b # a # rest) =
     (if a = 0 then [255, 255, 255, 255] else [r, g, b, a]) @ over_white rest"
| "over_white bytes = bytes"

definition tall_png :: raster where
  "tall_png = \<lparr>rwidth = 1, rheight = 2, rdata = [200, 10, 10, 255, 10, 10, 200, 255]\<rparr>"

definition wide_png :: raster where
  "wide_png = \<lparr>rwidth = 4, rheight = 1,
                rdata = [0, 0, 0, 255, 49, 49, 49, 255, 50, 0, 0, 255, 255, 255, 255, 255]\<rparr>"

definition dot_png :: raster where
  "dot_png = \<lparr>rwidth = 1, rheight = 1, rdata = [0, 0, 0, 0]\<rparr>"

definition browser :: env where
  "browser =
     \<lparr>image_onload =
        (\<lambda>url. if url = ''tall.png'' then Some tall_png
               else if url = ''wide.png'' then Some wide_png
               else if url = ''dot.png'' then Some dot_png
               else None),
      canvas_bytes = (\<lambda>fill img. if fill then over_white (rdata img) else rdata img),
      canvas_store = (\<lambda>px. px),
      verify = (\<lambda>d. case d of Encoded f q w h bytes \<Rightarrow> Measured w h),
      paper_width = 210,
      paper_height = 297\<rparr>"

definition bare_item :: item where
  "bare_item =
     \<lparr>imageUrl = None, renderedImageUrl = None, shirtImageUrl = None, productImageUrl = None,
      sku = None, productSku = None, quantity = None, qty = None, sizeInfo = None,
      variantSize = None, name = None\<rparr>"

definition tall_item :: item where
  "tall_item = bare_item\<lparr>imageUrl := Some ''tall.png''\<rparr>"

definition wide_item :: item where
  "wide_item = bare_item\<lparr>imageUrl := Some ''wide.png'', sku := Some ''S''\<rparr>"

definition lost_item :: item where
  "lost_item = bare_item\<lparr>imageUrl := Some ''gone.png'', shirtImageUrl := Some ''gone.png''\<rparr>"

definition order_A1 :: order where
  "order_A1 = \<lparr>orderId = ''A1'', items = [bare_item]\<rparr>"

definition order_T :: order where
  "order_T = \<lparr>orderId = ''T'', items = [tall_item]\<rparr>"

definition order_B2 :: order where
  "order_B2 = \<lparr>orderId = ''B2'', items = [wide_item, lost_item]\<rparr>"

definition order_B3 :: order where
  "order_B3 = \<lparr>orderId = ''B3'', items = [bare_item, tall_item, lost_item]\<rparr>"

text \<open>What the flowing generator's custom-image loader makes of the two opaque images.\<close>

definition tall_jpeg :: data_url where
  "tall_jpeg = Encoded JPEG (Some (3 / 4)) 1 2 [200, 10, 10, 255, 10, 10, 200, 255]"

definition wide_jpeg :: data_url where
  "wide_jpeg =
     Encoded JPEG (Some (3 / 4)) 4 1
       [0, 0, 0, 255, 49, 49, 49, 255, 50, 0, 0, 255, 255, 255, 255, 255]"

text \<open>A fresh A4 document with the cursor 27 units above the bottom of the page.\<close>

definition near_bottom :: gstate where
  "near_bottom = (initial browser 20)\<lparr>st_y := 270\<rparr>"

section \<open>Theorems\<close>

lemma page_count_addPage: "page_count (addPage d) = Suc (page_count d)"
  by (simp add: page_count_def addPage_def)

text \<open>
  C8. For every cursor position \<open>y\<close> and needed height \<open>h\<close>, \<open>ensureSpace\<close>
  returns \<open>y\<close> unchanged and starts no new page when
  \<open>y + h \<le> pageHeight - margin\<close>; otherwise it starts a new page (exactly
  one) and returns exactly the top margin.
\<close>

theorem ensureSpace_spec:
  "(y + h \<le> page_height d - m \<longrightarrow> ensureSpace d y h m = (d, y)) \<and>
   (\<not> y + h \<le> page_height d - m \<longrightarrow>
      ensureSpace d y h m = (addPage d, m) \<and>
      page_count (fst (ensureSpace d y h m)) = page_count d + 1)"
  by (simp add: ensureSpace_def getPageSize_def page_count_addPage)

theorem ensureSpace_spec_witness:
  "(35::rat) + 60 \<le> page_height (new_jsPDF 210 297) - 20 \<and>
   ensureSpace (new_jsPDF 210 297) 35 60 20 = (new_jsPDF 210 297, 35) \<and>
   \<not> (250::rat) + 60 \<le> page_height (new_jsPDF 210 297) - 20 \<and>
   ensureSpace (new_jsPDF 210 297) 250 60 20 = (addPage (new_jsPDF 210 297), 20) \<and>
   page_count (fst (ensureSpace (new_jsPDF 210 297) 250 60 20)) = 2"
  using ensureSpace_spec [of 35 60 "new_jsPDF 210 297" 20]
        ensureSpace_spec [of 250 60 "new_jsPDF 210 297" 20]
  by (simp add: new_jsPDF_def page_count_def addPage_def)

subsection \<open>The document writer\<close>

lemma put_snoc: "put el (ps @ [p]) = ps @ [p @ [el]]"
  by (induction ps rule: put.induct) (auto simp: neq_Nil_conv)

lemma put_not_Nil [simp]: "put el ps \<noteq> []"
  by (induction el ps rule: put.induct) auto

lemma last_put: "last (last (put el ps)) = el"
  by (induction el ps rule: put.induct) auto

lemma pages_addPage: "pages (addPage d) = pages d @ [[]]"
  by (simp add: addPage_def)

lemma pages_place: "pages (place el d) = put el (pages d)"
  by (simp add: place_def)

lemma page_height_addPage [simp]: "page_height (addPage d) = page_height d"
  by (simp add: addPage_def)

lemma page_width_addPage [simp]: "page_width (addPage d) = page_width d"
  by (simp add: addPage_def)

lemma page_height_place [simp]: "page_height (place el d) = page_height d"
  by (simp add: place_def)

lemma page_width_place [simp]: "page_width (place el d) = page_width d"
  by (simp add: place_def)

lemma ensureSpace_cases:
  "ensureSpace d y h m = (if y + h \<le> page_height d - m then (d, y) else (addPage d, m))"
  by (simp add: ensureSpace_def getPageSize_def Let_def)

subsection \<open>Dark-pixel suppression\<close>

declare threshold_loop.simps [simp del]

lemma dark_iff:
  "dark d i \<longleftrightarrow> i + 2 < length d \<and> d ! i < 50 \<and> d ! (i + 1) < 50 \<and> d ! (i + 2) < 50"
  by (auto simp: dark_def channel_def threshold_def)

lemma threshold_loop_unfold:
  "threshold_loop i d =
     (if i < length d then
        threshold_loop (i + 4) (if dark d i then d[i := 255, i + 1 := 255, i + 2 := 255] else d)
      else d)"
  by (subst threshold_loop.simps) (simp add: dark_def Let_def)

lemma length_threshold_loop [simp]: "length (threshold_loop i d) = length d"
  by (induction i d rule: threshold_loop.induct) (subst threshold_loop.simps, simp add: Let_def)

text \<open>
  The byte at \<open>j\<close> after the loop has run from \<open>i\<close>: 255 if \<open>j\<close> is a colour
  byte of a pixel the loop visited and found dark, the old byte otherwise.
\<close>

lemma threshold_loop_nth:
  "j < length d \<Longrightarrow>
   threshold_loop i d ! j =
     (if i \<le> j \<and> (j - i) mod 4 < 3 \<and> dark d (j - (j - i) mod 4) then 255 else d ! j)"
proof (induction i d arbitrary: j rule: threshold_loop.induct)
  case (1 i d)
  show ?case
  proof (cases "i < length d")
    case False
    with "1.prems" show ?thesis by (subst threshold_loop.simps) simp
  next
    case True
    define d' where "d' = (if dark d i then d[i := 255, i + 1 := 255, i + 2 := 255] else d)"
    have step: "threshold_loop i d = threshold_loop (i + 4) d'"
      using True by (subst threshold_loop_unfold) (simp add: d'_def)
    have IH: "threshold_loop (i + 4) d' ! j =
        (if i + 4 \<le> j \<and> (j - (i + 4)) mod 4 < 3 \<and> dark d' (j - (j - (i + 4)) mod 4)
         then 255 else d' ! j)"
    proof (cases "dark d i")
      case True
      then have "below (channel d i) threshold \<and> below (channel d (i + 1)) threshold \<and>
                 below (channel d (i + 2)) threshold"
        by (simp add: dark_def)
      from "1.IH"(1) [OF \<open>i < length d\<close> refl refl refl this, of j] "1.prems" True
      show ?thesis by (simp add: d'_def)
    next
      case False
      then have "\<not> (below (channel d i) threshold \<and> below (channel d (i + 1)) threshold \<and>
                    below (channel d (i + 2)) threshold)"
        by (simp add: dark_def)
      from "1.IH"(2) [OF \<open>i < length d\<close> refl refl refl this, of j] "1.prems" False
      show ?thesis by (simp add: d'_def)
    qed
    have far: "dark d' k = dark d k" if "i + 4 \<le> k" for k
      using that by (simp add: dark_iff d'_def)
    show ?thesis
    proof (cases "i + 4 \<le> j")
      case True
      have split_j: "j - i = (j - (i + 4)) + 4"
        using True by simp
      have eq1: "(j - (i + 4)) mod 4 = (j - i) mod 4"
        unfolding split_j by simp
      have "(j - i) mod 4 \<le> j - (i + 4)"
        unfolding split_j by (simp add: mod_le_divisor trans_le_add1)
      then have ge: "i + 4 \<le> j - (j - i) mod 4"
        using True by simp
      have "d' ! j = d ! j" using True by (simp add: d'_def)
      with True eq1 ge far [OF ge] IH step show ?thesis by simp
    next
      case False
      then have IH': "threshold_loop (i + 4) d' ! j = d' ! j"
        using IH by simp
      show ?thesis
      proof (cases "i \<le> j")
        case less: False
        then have "d' ! j = d ! j" by (simp add: d'_def)
        with less IH' step show ?thesis by simp
      next
        case ge: True
        with False have m: "(j - i) mod 4 = j - i" by simp
        have b: "j - (j - i) = i" using ge by simp
        show ?thesis
        proof (cases "dark d i")
          case nd: False
          then show ?thesis using IH' step m b by (simp add: d'_def)
        next
          case dk: True
          then have "i + 2 < length d" by (simp add: dark_iff)
          then have "d' ! j = (if j - i < 3 then 255 else d ! j)"
            using dk ge False by (auto simp: d'_def nth_list_update)
          then show ?thesis using IH' step m b dk ge by simp
        qed
      qed
    qed
  qed
qed

lemma threshold_loop_fixed:
  "(\<And>k. i \<le> k \<Longrightarrow> (k - i) mod 4 = 0 \<Longrightarrow> \<not> dark d k) \<Longrightarrow> threshold_loop i d = d"
proof (induction i d rule: threshold_loop.induct)
  case (1 i d)
  show ?case
  proof (cases "i < length d")
    case False
    then show ?thesis by (subst threshold_loop.simps) simp
  next
    case True
    have nd: "\<not> dark d i" using "1.prems" [of i] by simp
    then have nb: "\<not> (below (channel d i) threshold \<and> below (channel d (i + 1)) threshold \<and>
                      below (channel d (i + 2)) threshold)"
      by (simp add: dark_def)
    have "threshold_loop (i + 4) d = d"
    proof (rule "1.IH"(2) [OF True refl refl refl nb])
      fix k assume k: "i + 4 \<le> k" "(k - (i + 4)) mod 4 = 0"
      then have split_k: "k - i = (k - (i + 4)) + 4" by simp
      have "(k - i) mod 4 = 0"
        unfolding split_k using k(2) by simp
      moreover have "i \<le> k" using k(1) by simp
      ultimately show "\<not> dark d k" by (simp add: "1.prems")
    qed
    then show ?thesis using True nd by (subst threshold_loop_unfold) simp
  qed
qed

lemma threshold_loop_no_dark:
  assumes "k mod 4 = 0"
  shows "\<not> dark (threshold_loop 0 d) k"
proof
  assume dk: "dark (threshold_loop 0 d) k"
  then have k2: "k + 2 < length d" by (simp add: dark_iff)
  have m: "(k + 0) mod 4 = 0" "(k + 1) mod 4 = 1" "(k + 2) mod 4 = 2"
    using assms by presburger+
  show False
  proof (cases "dark d k")
    case True
    then have "threshold_loop 0 d ! k = 255"
      using k2 assms by (simp add: threshold_loop_nth)
    with dk show False by (simp add: dark_iff)
  next
    case False
    have "threshold_loop 0 d ! k = d ! k" "threshold_loop 0 d ! (k + 1) = d ! (k + 1)"
         "threshold_loop 0 d ! (k + 2) = d ! (k + 2)"
      using k2 False m by (simp_all add: threshold_loop_nth)
    with dk k2 False show False by (simp add: dark_iff)
  qed
qed

lemma threshold_loop_idem: "threshold_loop 0 (threshold_loop 0 d) = threshold_loop 0 d"
  by (rule threshold_loop_fixed) (simp add: threshold_loop_no_dark)

lemma threshold_loop_white: "threshold_loop 0 (replicate n 255) = replicate n 255"
  by (rule threshold_loop_fixed) (simp add: dark_iff)

lemma threshold_loop_suppressed:
  assumes "4 * p + 3 < length d"
  shows "suppressed d (threshold_loop 0 d) p"
proof -
  have m: "(4 * p) mod 4 = 0" "(4 * p + 1) mod 4 = 1" "(4 * p + 2) mod 4 = 2"
    "(4 * p + 3) mod 4 = 3"
    by presburger+
  have dk: "dark d (4 * p) \<longleftrightarrow> d ! (4 * p) < 50 \<and> d ! (4 * p + 1) < 50 \<and> d ! (4 * p + 2) < 50"
    using assms by (simp add: dark_iff)
  have "threshold_loop 0 d ! (4 * p) = (if dark d (4 * p) then 255 else d ! (4 * p))"
    "threshold_loop 0 d ! (4 * p + 1) = (if dark d (4 * p) then 255 else d ! (4 * p + 1))"
    "threshold_loop 0 d ! (4 * p + 2) = (if dark d (4 * p) then 255 else d ! (4 * p + 2))"
    "threshold_loop 0 d ! (4 * p + 3) = d ! (4 * p + 3)"
    using assms m by (simp_all add: threshold_loop_nth)
  then show ?thesis
    unfolding suppressed_def dk by simp
qed

lemma four_bytes:
  assumes "3 < length d"
  shows "\<exists>r g b a rest. d = r # g # b # a # rest"
proof -
  from assms obtain r d1 where d: "d = r # d1" and l1: "2 < length d1"
    by (cases d) auto
  from l1 obtain g d2 where d1: "d1 = g # d2" and l2: "1 < length d2"
    by (cases d1) auto
  from l2 obtain b d3 where d2: "d2 = b # d3" and l3: "0 < length d3"
    by (cases d2) auto
  from l3 obtain a rest where d3: "d3 = a # rest"
    by (cases d3) auto
  show ?thesis by (simp add: d d1 d2 d3)
qed

lemma length_putImageData [simp]: "length (putImageData e d) = length d"
  by (induction e d rule: putImageData.induct) (auto split: prod.split)

text \<open>An opaque pixel is encoded as the loop left it.\<close>

lemma putImageData_opaque:
  "4 * p + 3 < length d \<Longrightarrow> d ! (4 * p + 3) = 255 \<Longrightarrow>
   putImageData e d ! (4 * p) = d ! (4 * p) \<and>
   putImageData e d ! (4 * p + 1) = d ! (4 * p + 1) \<and>
   putImageData e d ! (4 * p + 2) = d ! (4 * p + 2) \<and>
   putImageData e d ! (4 * p + 3) = d ! (4 * p + 3)"
proof (induction p arbitrary: d)
  case 0
  then obtain r g b a rest where d: "d = r # g # b # a # rest"
    using four_bytes [of d] by auto
  with 0 have "a = 255" by simp
  then show ?case by (simp add: d)
next
  case (Suc p)
  then obtain r g b a rest where d: "d = r # g # b # a # rest"
    using four_bytes [of d] by auto
  define px where "px = (if a = 255 then [r, g, b, a]
      else if a = 0 then [0, 0, 0, 0]
      else (case canvas_store e (r, g, b, a) of (r', g', b', a') \<Rightarrow> [r', g', b', a']))"
  have lpx: "length px = 4"
    by (simp add: px_def split: prod.split)
  have out: "putImageData e d = px @ putImageData e rest"
    by (simp add: d px_def)
  have e0: "4 * Suc p = 4 + 4 * p"
    by simp
  have dn: "d ! (4 + j) = rest ! j" for j
    by (simp add: d)
  have on: "putImageData e d ! (4 + j) = putImageData e rest ! j" for j
    by (simp add: out nth_append lpx)
  have r1: "4 * p + 3 < length rest"
    using Suc.prems(1) by (simp add: d)
  have "d ! (4 + (4 * p + 3)) = 255"
    using Suc.prems(2) by (simp only: e0 add.assoc)
  then have r2: "rest ! (4 * p + 3) = 255"
    by (simp only: dn)
  from Suc.IH [OF r1 r2] show ?case
    by (simp only: e0 add.assoc on dn)
qed

subsection \<open>Claims about the image transform\<close>

text \<open>
  C5. Dark-pixel suppression is requested by \<open>safeLoadImage\<close> of the
  three-page engine (JPEG output) and of the flowing generator; both run it
  on the white-filled canvas, where every pixel is opaque (the hypothesis on
  the alpha byte). Then every pixel whose red, green and blue bytes are all
  strictly below 50 is encoded as opaque white, \<open>(255, 255, 255, 255)\<close>,
  and every other pixel is encoded with its four bytes untouched; the alpha
  byte is untouched in both cases. When suppression is not requested the
  canvas bytes are encoded untouched.
\<close>

theorem threshold_pixels:
  assumes "image_onload e url = Some img"
    and "4 * p + 3 < length (canvas_bytes e True img)"
    and "canvas_bytes e True img ! (4 * p + 3) = 255"
  shows
    "loadImageAsBase64 e url q True JPEG =
       Inr (Encoded JPEG (Some q) (rwidth img) (rheight img)
              (putImageData e (threshold_loop 0 (canvas_bytes e True img)))) \<and>
     safeLoadImage e (Some url) q =
       Some (Encoded JPEG (Some q) (rwidth img) (rheight img)
               (putImageData e (threshold_loop 0 (canvas_bytes e True img)))) \<and>
     loadImageAsBase64_flow e url q True =
       Inr (Encoded JPEG (Some q) (rwidth img) (rheight img)
              (putImageData e (threshold_loop 0 (canvas_bytes e True img)))) \<and>
     safeLoadImage_flow e (Some url) q =
       Some (Encoded JPEG (Some q) (rwidth img) (rheight img)
               (putImageData e (threshold_loop 0 (canvas_bytes e True img)))) \<and>
     length (putImageData e (threshold_loop 0 (canvas_bytes e True img))) =
       length (canvas_bytes e True img) \<and>
     suppressed (canvas_bytes e True img)
       (putImageData e (threshold_loop 0 (canvas_bytes e True img))) p \<and>
     putImageData e (threshold_loop 0 (canvas_bytes e True img)) ! (4 * p + 3) = 255 \<and>
     (canvas_bytes e True img ! (4 * p) < 50 \<and> canvas_bytes e True img ! (4 * p + 1) < 50 \<and>
      canvas_bytes e True img ! (4 * p + 2) < 50 \<longrightarrow>
        map (\<lambda>k. putImageData e (threshold_loop 0 (canvas_bytes e True img)) ! (4 * p + k))
          [0, 1, 2, 3] = [255, 255, 255, 255]) \<and>
     loadImageAsBase64 e url q False f =
       Inr (Encoded f (if f = PNG then None else Some q) (rwidth img) (rheight img)
              (canvas_bytes e (f \<noteq> PNG) img)) \<and>
     loadImageAsBase64_flow e url q False =
       Inr (Encoded JPEG (Some q) (rwidth img) (rheight img) (canvas_bytes e True img))"
proof -
  let ?c = "canvas_bytes e True img"
  let ?t = "threshold_loop 0 ?c"
  let ?out = "putImageData e ?t"
  have st: "suppressed ?c ?t p"
    using assms(2) by (rule threshold_loop_suppressed)
  then have ta: "?t ! (4 * p + 3) = 255"
    using assms(3) by (simp add: suppressed_def)
  have tl: "4 * p + 3 < length ?t"
    using assms(2) by simp
  note keep = putImageData_opaque [OF tl ta, of e]
  from keep have k: "?out ! (4 * p) = ?t ! (4 * p)" "?out ! (4 * p + 1) = ?t ! (4 * p + 1)"
    "?out ! (4 * p + 2) = ?t ! (4 * p + 2)" "?out ! (4 * p + 3) = ?t ! (4 * p + 3)"
    by blast+
  have so: "suppressed ?c ?out p"
    using st unfolding suppressed_def k .
  have oa: "?out ! (4 * p + 3) = 255"
    unfolding k(4) by (rule ta)
  have white: "map (\<lambda>k. ?out ! (4 * p + k)) [0, 1, 2, 3] = [255, 255, 255, 255]"
    if dk: "?c ! (4 * p) < 50 \<and> ?c ! (4 * p + 1) < 50 \<and> ?c ! (4 * p + 2) < 50"
  proof -
    from so have "?out ! (4 * p) = 255 \<and> ?out ! (4 * p + 1) = 255 \<and> ?out ! (4 * p + 2) = 255"
      unfolding suppressed_def if_P [OF dk] by (rule conjunct1)
    then have w: "?out ! (4 * p) = 255" "?out ! (4 * p + 1) = 255" "?out ! (4 * p + 2) = 255"
      by blast+
    show ?thesis
      by (simp only: list.map add_0_right w oa)
  qed
  have fmt: "f = PNG \<or> f = JPEG" by (cases f) simp_all
  have loads:
    "loadImageAsBase64 e url q True JPEG =
       Inr (Encoded JPEG (Some q) (rwidth img) (rheight img) ?out)"
    "safeLoadImage e (Some url) q = Some (Encoded JPEG (Some q) (rwidth img) (rheight img) ?out)"
    "loadImageAsBase64_flow e url q True =
       Inr (Encoded JPEG (Some q) (rwidth img) (rheight img) ?out)"
    "safeLoadImage_flow e (Some url) q =
       Some (Encoded JPEG (Some q) (rwidth img) (rheight img) ?out)"
    using assms(1)
    by (simp_all add: loadImageAsBase64_def loadImageAsBase64_flow_def safeLoadImage_def
          safeLoadImage_flow_def Let_def)
  have plain:
    "loadImageAsBase64 e url q False f =
       Inr (Encoded f (if f = PNG then None else Some q) (rwidth img) (rheight img)
              (canvas_bytes e (f \<noteq> PNG) img))"
    "loadImageAsBase64_flow e url q False =
       Inr (Encoded JPEG (Some q) (rwidth img) (rheight img) ?c)"
    using assms(1) fmt
    by (auto simp: loadImageAsBase64_def loadImageAsBase64_flow_def Let_def)
  show ?thesis
    using loads plain so oa white by (intro conjI impI) (simp_all only: length_putImageData length_threshold_loop)
qed

theorem threshold_pixels_witness:
  "image_onload browser ''wide.png'' = Some wide_png \<and>
   4 * 1 + 3 < length (canvas_bytes browser True wide_png) \<and>
   canvas_bytes browser True wide_png ! (4 * 1 + 3) = 255 \<and>
   canvas_bytes browser True wide_png ! (4 * 1) < 50 \<and>
   canvas_bytes browser True wide_png ! (4 * 1 + 1) < 50 \<and>
   canvas_bytes browser True wide_png ! (4 * 1 + 2) < 50 \<and>
   safeLoadImage browser (Some ''wide.png'') (1 / 2) =
     Some (Encoded JPEG (Some (1 / 2)) 4 1
             [255, 255, 255, 255, 255, 255, 255, 255, 50, 0, 0, 255, 255, 255, 255, 255]) \<and>
   map (\<lambda>k. putImageData browser (threshold_loop 0 (canvas_bytes browser True wide_png)) !
             (4 * 1 + k)) [0, 1, 2, 3] = [255, 255, 255, 255]"
proof -
  have a: "image_onload browser ''wide.png'' = Some wide_png"
    by (simp add: browser_def)
  have c: "canvas_bytes browser True wide_png = rdata wide_png"
    by (simp add: browser_def wide_png_def)
  have b: "4 * 1 + 3 < length (canvas_bytes browser True wide_png)"
    "canvas_bytes browser True wide_png ! (4 * 1 + 3) = 255"
    by (simp_all add: c) (simp_all add: wide_png_def)
  have dk: "canvas_bytes browser True wide_png ! (4 * 1) < 50 \<and>
      canvas_bytes browser True wide_png ! (4 * 1 + 1) < 50 \<and>
      canvas_bytes browser True wide_png ! (4 * 1 + 2) < 50"
    by (simp add: c) (simp add: wide_png_def)
  have v: "threshold_loop 0 (rdata wide_png) =
     [255, 255, 255, 255, 255, 255, 255, 255, 50, 0, 0, 255, 255, 255, 255, 255]"
    by (simp add: wide_png_def threshold_loop_unfold dark_iff)
  have o: "putImageData browser
       [255, 255, 255, 255, 255, 255, 255, 255, 50, 0, 0, 255, 255, 255, 255, 255] =
     [255, 255, 255, 255, 255, 255, 255, 255, 50, 0, 0, 255, 255, 255, 255, 255]"
    by simp
  have w: "rwidth wide_png = 4" "rheight wide_png = 1"
    by (simp_all add: wide_png_def)
  note run = threshold_pixels [OF a b, of "1 / 2"]
  from run have s: "safeLoadImage browser (Some ''wide.png'') (1 / 2) =
      Some (Encoded JPEG (Some (1 / 2)) (rwidth wide_png) (rheight wide_png)
              (putImageData browser (threshold_loop 0 (canvas_bytes browser True wide_png))))"
    by blast
  from run dk have m: "map (\<lambda>k. putImageData browser
        (threshold_loop 0 (canvas_bytes browser True wide_png)) ! (4 * 1 + k)) [0, 1, 2, 3] =
      [255, 255, 255, 255]"
    by blast
  have s': "safeLoadImage browser (Some ''wide.png'') (1 / 2) =
     Some (Encoded JPEG (Some (1 / 2)) 4 1
             [255, 255, 255, 255, 255, 255, 255, 255, 50, 0, 0, 255, 255, 255, 255, 255])"
    using s by (simp only: c v o w)
  from a b dk s' m show ?thesis by blast
qed

text \<open>
  C9. Dark-pixel suppression is idempotent: a second pass changes nothing a
  first pass has left, for every image, so the encoded output is the same;
  on an image that is white already the first pass changes nothing either.
\<close>

theorem threshold_idempotent:
  "threshold_loop 0 (threshold_loop 0 d) = threshold_loop 0 d \<and>
   Encoded f q w h (threshold_loop 0 (threshold_loop 0 d)) =
     Encoded f q w h (threshold_loop 0 d) \<and>
   threshold_loop 0 (replicate n 255) = replicate n 255 \<and>
   Encoded f q w h (threshold_loop 0 (threshold_loop 0 (replicate n 255))) =
     Encoded f q w h (threshold_loop 0 (replicate n 255))"
  by (simp add: threshold_loop_idem threshold_loop_white)

theorem threshold_idempotent_witness:
  "threshold_loop 0 (threshold_loop 0 (rdata wide_png)) = threshold_loop 0 (rdata wide_png) \<and>
   threshold_loop 0 (replicate 8 255) = replicate 8 255"
  using threshold_idempotent [of "rdata wide_png" JPEG None 4 1 8] by simp

text \<open>
  C6, as amended. The custom-image loader of the three-page engine calls the
  transform with quality 1.0, no suppression and PNG output (which encodes
  the unfilled canvas and ignores the quality); the custom-image loader of
  the flowing generator calls it with quality 0.75, no suppression, and its
  output is JPEG from the white-filled canvas.
\<close>

theorem customLoader_presets:
  assumes "image_onload e url = Some img" and "url \<noteq> []"
  shows
    "loadImageAsBase64 e url 1 False PNG =
       Inr (Encoded PNG None (rwidth img) (rheight img) (canvas_bytes e False img)) \<and>
     safeLoadCustomImage e (Some url) =
       Some (Encoded PNG None (rwidth img) (rheight img) (canvas_bytes e False img)) \<and>
     loadImageAsBase64_flow e url (3 / 4) False =
       Inr (Encoded JPEG (Some (3 / 4)) (rwidth img) (rheight img) (canvas_bytes e True img)) \<and>
     safeLoadCustomImage_flow e (Some url) =
       Some (Encoded JPEG (Some (3 / 4)) (rwidth img) (rheight img) (canvas_bytes e True img))"
  using assms
  by (simp add: loadImageAsBase64_def loadImageAsBase64_flow_def safeLoadCustomImage_def
        safeLoadCustomImage_flow_def Let_def)

theorem customLoader_presets_witness:
  "image_onload browser ''dot.png'' = Some dot_png \<and> ''dot.png'' \<noteq> [] \<and>
   safeLoadCustomImage browser (Some ''dot.png'') = Some (Encoded PNG None 1 1 [0, 0, 0, 0]) \<and>
   safeLoadCustomImage_flow browser (Some ''dot.png'') =
     Some (Encoded JPEG (Some (3 / 4)) 1 1 [255, 255, 255, 255])"
proof -
  have a: "image_onload browser ''dot.png'' = Some dot_png"
    by (simp add: browser_def)
  have b: "''dot.png'' \<noteq> []" by simp
  from customLoader_presets [OF a b] a show ?thesis
    by (simp add: browser_def dot_png_def)
qed

text \<open>
  The claim C6 as stated fails on the flowing generator: its custom-image
  loader gives a JPEG at quality 0.75.
\<close>

theorem customLoader_flow_counterexample:
  "safeLoadCustomImage_flow browser (Some ''dot.png'') =
     Some (Encoded JPEG (Some (3 / 4)) 1 1 [255, 255, 255, 255]) \<and>
   JPEG \<noteq> PNG \<and> (3 / 4 :: rat) \<noteq> 1"
  by (simp add: safeLoadCustomImage_flow_def loadImageAsBase64_flow_def browser_def dot_png_def)

subsection \<open>The three-page engine\<close>

lemma visualPage_no_url:
  "\<not> truthy (imageUrl it) \<Longrightarrow> \<not> truthy (renderedImageUrl it) \<Longrightarrow>
   visualPage e m later st it = st"
  by (simp add: visualPage_def js_or_def)

lemma visualPage_no_image:
  "truthy (js_or (imageUrl it) (renderedImageUrl it)) \<Longrightarrow>
   safeLoadCustomImage e (js_or (imageUrl it) (renderedImageUrl it)) = None \<Longrightarrow>
   visualPage e m later st it =
     st\<lparr>st_doc := (if later \<or> st_y st > m then addPage (st_doc st) else st_doc st),
         st_y := m\<rparr>"
  by (simp add: visualPage_def Let_def)

lemma garmentPage_no_url:
  "\<not> truthy (shirtImageUrl it) \<Longrightarrow>
   garmentPage e m st it = st\<lparr>st_doc := addPage (st_doc st), st_y := m\<rparr>"
  by (simp add: garmentPage_def Let_def)

lemma garmentPage_no_image:
  "safeLoadCustomImage e (shirtImageUrl it) = None \<Longrightarrow>
   garmentPage e m st it = st\<lparr>st_doc := addPage (st_doc st), st_y := m\<rparr>"
  by (simp add: garmentPage_def Let_def)

lemma page_width_visualPage [simp]:
  "page_width (st_doc (visualPage e m later st it)) = page_width (st_doc st)"
  by (simp add: visualPage_def Let_def addImage_def split: option.split probe.split prod.split)

lemma page_width_garmentPage [simp]:
  "page_width (st_doc (garmentPage e m st it)) = page_width (st_doc st)"
  by (simp add: garmentPage_def Let_def addImage_def split: option.split)

lemma pages_detailsPage:
  "pages (st_doc (detailsPage ord m st it)) =
     pages (st_doc st) @ [detailsElements ord (page_width (st_doc st)) m it]"
  by (simp add: detailsPage_def Let_def getPageSize_def pages_place pages_addPage put_snoc
        detailsElements_def createHighQualityBarcode_def)

lemma st_y_detailsPage: "st_y (detailsPage ord m st it) = m + 36"
  by (simp add: detailsPage_def Let_def)

lemma st_progress_detailsPage: "st_progress (detailsPage ord m st it) = st_progress st"
  by (simp add: detailsPage_def Let_def)

lemma st_progress_visualPage: "st_progress (visualPage e m later st it) = st_progress st"
  by (simp add: visualPage_def Let_def split: option.split probe.split prod.split)

lemma st_progress_garmentPage: "st_progress (garmentPage e m st it) = st_progress st"
  by (simp add: garmentPage_def Let_def split: option.split)

lemma st_progress_itemPages: "st_progress (itemPages e m later ord st it) = st_progress st"
  by (simp add: itemPages_def st_progress_detailsPage st_progress_garmentPage
        st_progress_visualPage)

lemma last_pages_itemPages:
  "last (pages (st_doc (itemPages e m later ord st it))) =
     detailsElements ord (page_width (st_doc st)) m it"
  by (simp add: itemPages_def pages_detailsPage)

lemma pages_of_item_without_urls:
  assumes "\<not> truthy (imageUrl it)" "\<not> truthy (renderedImageUrl it)"
    "\<not> truthy (shirtImageUrl it)"
  shows "pages (st_doc (itemPages e m later ord st it)) =
           pages (st_doc st) @ [[], detailsElements ord (page_width (st_doc st)) m it]"
  using assms
  by (simp add: itemPages_def visualPage_no_url garmentPage_no_url pages_detailsPage
        pages_addPage)

text \<open>
  An item none of whose images loads: a visual page is opened if the item
  names a custom image and is not the first content, and stays empty; the
  garment page is opened and stays empty; the details page follows.
\<close>

lemma pages_itemPages_nothing_loaded:
  assumes "safeLoadCustomImage e (js_or (imageUrl it) (renderedImageUrl it)) = None"
    and "safeLoadCustomImage e (shirtImageUrl it) = None"
  shows "pages (st_doc (itemPages e m later ord st it)) =
           pages (st_doc st) @
           (if truthy (js_or (imageUrl it) (renderedImageUrl it)) \<and> (later \<or> st_y st > m)
            then [[]] else []) @
           [[], detailsElements ord (page_width (st_doc st)) m it]"
proof (cases "truthy (js_or (imageUrl it) (renderedImageUrl it))")
  case True
  show ?thesis
    using True assms
    by (simp add: itemPages_def visualPage_no_image garmentPage_no_image pages_detailsPage
          pages_addPage)
next
  case False
  then have "visualPage e m later st it = st"
    by (simp add: visualPage_def)
  then show ?thesis
    using False assms
    by (simp add: itemPages_def garmentPage_no_image pages_detailsPage pages_addPage)
qed

subsection \<open>Progress\<close>

lemma st_progress_report: "st_progress (report True k n st) = st_progress st @ [(k, n)]"
  by (simp add: report_def)

lemma st_progress_initial: "st_progress (initial e m) = []"
  by (simp add: initial_def)

lemma ticks_0 [simp]: "ticks k 0 tot = []"
  by (simp add: ticks_def)

lemma ticks_Suc: "ticks k (Suc n) tot = (k + 1, tot) # ticks (k + 1) n tot"
  by (simp add: ticks_def upt_rec [of "Suc k"])

lemma ticks_add: "ticks k (m + n) tot = ticks k m tot @ ticks (k + m) n tot"
proof -
  have "[k + 1 ..< (k + m + 1) + n] = [k + 1 ..< k + m + 1] @ [k + m + 1 ..< (k + m + 1) + n]"
    by (rule upt_add_eq_append) simp
  moreover have "(k + m + 1) + n = k + (m + n) + 1" "(k + m + 1) + n = k + m + n + 1"
    by simp_all
  ultimately have "[k + 1 ..< k + (m + n) + 1] =
      [k + 1 ..< k + m + 1] @ [k + m + 1 ..< k + m + n + 1]"
    by (simp only:)
  then show ?thesis by (simp only: ticks_def map_append)
qed

lemma ticks_from_0: "ticks 0 n tot = map (\<lambda>k. (k, tot)) [1 ..< n + 1]"
  by (simp add: ticks_def)

lemma generatePDF_loop_progress:
  "st_progress (generatePDF_loop e True ord i its st) =
     st_progress st @ ticks i (length its) (length (items ord))"
proof (induction its arbitrary: i st)
  case Nil
  show ?case by simp
next
  case (Cons it its)
  show ?case
    by (simp add: Cons.IH st_progress_itemPages st_progress_report ticks_Suc)
qed

lemma combined_items_progress:
  "fst (combined_items e True tot ord its (k, st)) = k + length its \<and>
   st_progress (snd (combined_items e True tot ord its (k, st))) =
     st_progress st @ ticks k (length its) tot"
proof (induction its arbitrary: k st)
  case Nil
  show ?case by simp
next
  case (Cons it its)
  show ?case
    by (simp add: Let_def Cons.IH st_progress_itemPages st_progress_report ticks_Suc)
qed

lemma itemCount_Cons: "itemCount (ord # orders) = length (items ord) + itemCount orders"
  by (simp add: itemCount_def)

lemma combined_orders_progress:
  "fst (combined_orders e True tot orders (k, st)) = k + itemCount orders \<and>
   st_progress (snd (combined_orders e True tot orders (k, st))) =
     st_progress st @ ticks k (itemCount orders) tot"
proof (induction orders arbitrary: k st)
  case Nil
  show ?case by (simp add: itemCount_def)
next
  case (Cons ord orders)
  obtain k' st' where step: "combined_items e True tot ord (items ord) (k, st) = (k', st')"
    by (cases "combined_items e True tot ord (items ord) (k, st)")
  from combined_items_progress [of e tot ord "items ord" k st] step
  have k': "k' = k + length (items ord)"
    and p': "st_progress st' = st_progress st @ ticks k (length (items ord)) tot"
    by simp_all
  show ?case
    using Cons.IH [of k' st'] by (simp add: step k' p' itemCount_Cons ticks_add add.assoc)
qed

lemma fold_count: "fold (\<lambda>ord acc. acc + length (items ord)) orders a = a + itemCount orders"
  by (induction orders arbitrary: a) (simp_all add: itemCount_def)

lemma totalItems_itemCount: "totalItems orders = itemCount orders"
  by (simp add: totalItems_def fold_count)

subsection \<open>The flowing generator\<close>

lemma itemHeader_eq:
  "itemHeader ord i st =
     (if st_y st + 30 \<le> page_height (st_doc st) - 20
      then st\<lparr>st_doc := place (TextEl (headerText ord i) (page_width (st_doc st) / 2) (st_y st))
                          (st_doc st),
              st_y := st_y st + 15\<rparr>
      else st\<lparr>st_doc := place (TextEl (headerText ord i) (page_width (st_doc st) / 2) 20)
                          (addPage (st_doc st)),
              st_y := 35\<rparr>)"
  by (simp add: itemHeader_def ensureSpace_cases getPageSize_def Let_def)

lemma barcodeBlock_eq:
  "barcodeBlock ord i st =
     (if st_y st + 60 \<le> page_height (st_doc st) - 20
      then st\<lparr>st_doc := place (BarcodeEl (BarcodeStandard (barcodeText ord i))
                                ((page_width (st_doc st) - 85) / 2) (st_y st) 85 35) (st_doc st),
              st_y := st_y st + 50\<rparr>
      else st\<lparr>st_doc := place (BarcodeEl (BarcodeStandard (barcodeText ord i))
                                ((page_width (st_doc st) - 85) / 2) 20 85 35)
                          (addPage (st_doc st)),
              st_y := 70\<rparr>)"
  by (simp add: barcodeBlock_def addBarcode_def ensureSpace_cases getPageSize_def Let_def)

lemma separatorBlock_eq:
  "separatorBlock st =
     (if st_y st + 15 \<le> page_height (st_doc st) - 20
      then st\<lparr>st_doc := place (LineEl 40 (st_y st) (page_width (st_doc st) - 40) (st_y st))
                          (st_doc st),
              st_y := st_y st + 15\<rparr>
      else st\<lparr>st_doc := place (LineEl 40 20 (page_width (st_doc st) - 40) 20)
                          (addPage (st_doc st)),
              st_y := 35\<rparr>)"
  by (simp add: separatorBlock_def ensureSpace_cases getPageSize_def Let_def)

lemma orderSeparator_eq:
  "orderSeparator st =
     (if st_y st + 30 \<le> page_height (st_doc st) - 20
      then st\<lparr>st_doc := place (LineEl 40 (st_y st) (page_width (st_doc st) - 40) (st_y st))
                          (st_doc st),
              st_y := st_y st + 20\<rparr>
      else st\<lparr>st_doc := place (LineEl 40 20 (page_width (st_doc st) - 40) 20)
                          (addPage (st_doc st)),
              st_y := 40\<rparr>)"
  by (simp add: orderSeparator_def ensureSpace_cases getPageSize_def Let_def)

lemma largeCustomImage_eq:
  "largeCustomImage e it st =
     (case safeLoadCustomImage_flow e (js_or (imageUrl it) (renderedImageUrl it)) of
        None \<Rightarrow> st
      | Some img \<Rightarrow>
          (let h = displayHeight (st_doc st) img in
           if st_y st + h \<le> page_height (st_doc st) - 20
           then st\<lparr>st_doc := place (ImageEl img 15 (st_y st) (page_width (st_doc st) - 30) h)
                               (st_doc st),
                   st_y := st_y st + h + 10\<rparr>
           else st\<lparr>st_doc := place (ImageEl img 15 20 (page_width (st_doc st) - 30) h)
                               (addPage (st_doc st)),
                   st_y := 20 + h + 10\<rparr>))"
  by (simp add: largeCustomImage_def addFullWidthImage_def addImage_def ensureSpace_cases
        getPageSize_def displayHeight_def Let_def split: option.split)

lemma st_progress_itemBlocks: "st_progress (itemBlocks e ord i st it) = st_progress st"
  by (simp add: itemBlocks_def separatorBlock_eq barcodeBlock_eq largeCustomImage_eq
        itemHeader_eq Let_def split: option.split)

lemma st_progress_orderSeparator: "st_progress (orderSeparator st) = st_progress st"
  by (simp add: orderSeparator_eq)

lemma generatePDF_flow_loop_progress:
  "st_progress (generatePDF_flow_loop e True ord i its st) =
     st_progress st @ ticks i (length its) (length (items ord))"
proof (induction its arbitrary: i st)
  case Nil
  show ?case by simp
next
  case (Cons it its)
  show ?case
    by (simp add: Cons.IH st_progress_itemBlocks st_progress_report ticks_Suc)
qed

lemma combined_items_flow_progress:
  "fst (combined_items_flow e True tot ord i its (k, st)) = k + length its \<and>
   st_progress (snd (combined_items_flow e True tot ord i its (k, st))) =
     st_progress st @ ticks k (length its) tot"
proof (induction its arbitrary: k st i)
  case Nil
  show ?case by simp
next
  case (Cons it its)
  show ?case
    by (simp add: Let_def Cons.IH st_progress_itemBlocks st_progress_report ticks_Suc)
qed

lemma combined_orders_flow_progress:
  "fst (combined_orders_flow e True tot oi orders (k, st)) = k + itemCount orders \<and>
   st_progress (snd (combined_orders_flow e True tot oi orders (k, st))) =
     st_progress st @ ticks k (itemCount orders) tot"
proof (induction orders arbitrary: k st oi)
  case Nil
  show ?case by (simp add: itemCount_def)
next
  case (Cons ord orders)
  define st0 where "st0 = (if oi > 0 then orderSeparator st else st)"
  have p0: "st_progress st0 = st_progress st"
    by (simp add: st0_def st_progress_orderSeparator)
  obtain k' st' where
    step: "combined_items_flow e True tot ord 0 (items ord) (k, st0) = (k', st')"
    by (cases "combined_items_flow e True tot ord 0 (items ord) (k, st0)")
  from combined_items_flow_progress [of e tot ord 0 "items ord" k st0] step
  have k': "k' = k + length (items ord)"
    and p': "st_progress st' = st_progress st @ ticks k (length (items ord)) tot"
    by (simp_all add: p0)
  have "combined_orders_flow e True tot oi (ord # orders) (k, st) =
        combined_orders_flow e True tot (oi + 1) orders (k', st')"
    using step by (simp add: st0_def)
  then show ?case
    using Cons.IH [of "oi + 1" k' st'] by (simp add: k' p' itemCount_Cons ticks_add add.assoc)
qed

subsection \<open>The fill-page placement\<close>

lemma placeFillPage_unfold:
  "placeFillPage pw ph iw ih =
     (let (w0, h0) = coverSize pw ph iw ih;
          (w1, h1) = (if w0 > pw then (pw, (pw / of_nat iw) * of_nat ih) else (w0, h0));
          (w2, h2) = (if h1 > ph then ((ph / of_nat ih) * of_nat iw, ph) else (w1, h1))
      in ((pw - w2) / 2, (ph - h2) / 2, w2, h2))"
  by (simp add: placeFillPage_def coverSize_def Let_def split: prod.split)

lemma placeFillPage_geometry:
  assumes iw: "0 < iw" and ih: "0 < ih"
    and r: "placeFillPage pw ph iw ih = (x, y, fw, fh)"
    and u: "coverSize pw ph iw ih = (w0, h0)"
  shows "fw \<le> pw" "fh \<le> ph" "fw * of_nat ih = fh * of_nat iw"
    "x = (pw - fw) / 2" "y = (ph - fh) / 2"
    "pw - 10 \<le> w0" "ph - 10 \<le> h0"
    "w0 \<le> pw \<Longrightarrow> h0 \<le> ph \<Longrightarrow> fw = w0 \<and> fh = h0"
    "min pw ph + 10 \<le> max pw ph \<Longrightarrow> min pw ph \<le> max fw fh"
proof -
  define a :: rat where "a = of_nat iw"
  define b :: rat where "b = of_nat ih"
  have a: "0 < a" and b: "0 < b" using iw ih by (simp_all add: a_def b_def)
  define s where "s = max ((pw - 10) / a) ((ph - 10) / b)"
  have w0: "w0 = a * s" and h0: "h0 = b * s"
    using u by (simp_all add: coverSize_def Let_def a_def b_def s_def)
  define w1 where "w1 = (if w0 > pw then pw else w0)"
  define h1 where "h1 = (if w0 > pw then (pw / a) * b else h0)"
  define w2 where "w2 = (if h1 > ph then (ph / b) * a else w1)"
  define h2 where "h2 = (if h1 > ph then ph else h1)"
  have "placeFillPage pw ph iw ih = ((pw - w2) / 2, (ph - h2) / 2, w2, h2)"
    unfolding placeFillPage_unfold u w1_def h1_def w2_def h2_def a_def b_def
    by (simp add: Let_def)
  with r have res: "x = (pw - w2) / 2" "y = (ph - h2) / 2" "fw = w2" "fh = h2"
    by simp_all
  have w1_le: "w1 \<le> pw" by (simp add: w1_def)
  have ratio1: "w1 * b = h1 * a"
    using a b by (simp add: w1_def h1_def w0 h0)
  have ratio2: "w2 * b = h2 * a"
    using a b ratio1 by (simp add: w2_def h2_def)
  have h2_le: "h2 \<le> ph" by (simp add: h2_def)
  have w2_le: "w2 \<le> w1"
  proof (cases "h1 > ph")
    case True
    then have "ph * a < h1 * a" using a by simp
    then have "ph * a < w1 * b" using ratio1 by simp
    then have "(ph / b) * a < w1" using b by (simp add: field_simps)
    with True show ?thesis by (simp add: w2_def)
  next
    case False
    then show ?thesis by (simp add: w2_def)
  qed
  show "fw \<le> pw" using w2_le w1_le res by simp
  show "fh \<le> ph" using h2_le res by simp
  show "fw * of_nat ih = fh * of_nat iw" using ratio2 res by (simp add: a_def b_def)
  show "x = (pw - fw) / 2" "y = (ph - fh) / 2" using res by simp_all
  show "fw = w0 \<and> fh = h0" if "w0 \<le> pw" "h0 \<le> ph"
    using that res by (simp add: w1_def h1_def w2_def h2_def)
  show cw: "pw - 10 \<le> w0"
  proof -
    have "(pw - 10) / a \<le> s" by (simp add: s_def)
    then have "a * ((pw - 10) / a) \<le> a * s" using a by (simp only: mult_le_cancel_left_pos)
    then show ?thesis using a by (simp add: w0)
  qed
  show ch: "ph - 10 \<le> h0"
  proof -
    have "(ph - 10) / b \<le> s" by (simp add: s_def)
    then have "b * ((ph - 10) / b) \<le> b * s" using b by (simp only: mult_le_cancel_left_pos)
    then show ?thesis using b by (simp add: h0)
  qed
  show "min pw ph \<le> max fw fh" if page: "min pw ph + 10 \<le> max pw ph"
  proof -
    consider (c2) "h1 > ph" | (c1) "\<not> h1 > ph" "w0 > pw" | (c0) "\<not> h1 > ph" "\<not> w0 > pw"
      by blast
    then show ?thesis
    proof cases
      case c2
      then have "fh = ph" using res by (simp add: h2_def)
      then show ?thesis by simp
    next
      case c1
      then have "fw = pw" using res by (simp add: w2_def w1_def)
      then show ?thesis by simp
    next
      case c0
      then have "fw = w0" "fh = h0" using res by (simp_all add: w2_def w1_def h2_def h1_def)
      with cw ch page show ?thesis by (simp add: min_def max_def split: if_splits)
    qed
  qed
qed

subsection \<open>Claims about the three-page engine\<close>

text \<open>
  C1, as amended. In the three-page engine (the item loop of \<open>generatePDF\<close>
  and of \<open>generateCombinedPDF\<close>), an item that has neither a custom-image
  URL (\<open>imageUrl\<close>, \<open>renderedImageUrl\<close>) nor a garment URL
  (\<open>shirtImageUrl\<close>) opens no visual page and adds exactly two pages to the
  document: the garment page, which receives no element, and the details
  page.
\<close>

theorem itemPages_no_images:
  assumes "\<not> truthy (imageUrl it)" and "\<not> truthy (renderedImageUrl it)"
    and "\<not> truthy (shirtImageUrl it)"
  shows
    "pages (st_doc (itemPages e m later ord st it)) =
       pages (st_doc st) @ [[], detailsElements ord (page_width (st_doc st)) m it] \<and>
     page_count (st_doc (itemPages e m later ord st it)) = page_count (st_doc st) + 2 \<and>
     generatePDF_loop e cb ord i [it] st =
       itemPages e 20 (i > 0) ord (report cb (i + 1) (length (items ord)) st) it \<and>
     combined_items e cb tot ord [it] (k, st) =
       (k + 1, itemPages e 20 (k + 1 > 1) ord (report cb (k + 1) tot st) it)"
  using assms
  by (simp add: pages_of_item_without_urls page_count_def Let_def)

theorem itemPages_no_images_witness:
  "\<not> truthy (imageUrl bare_item) \<and> \<not> truthy (renderedImageUrl bare_item) \<and>
   \<not> truthy (shirtImageUrl bare_item) \<and>
   pages (st_doc (itemPages browser 20 False order_A1 (initial browser 20) bare_item)) =
     [[], [], detailsElements order_A1 210 20 bare_item] \<and>
   page_count (st_doc (itemPages browser 20 False order_A1 (initial browser 20) bare_item)) = 3"
proof -
  have a: "\<not> truthy (imageUrl bare_item)" "\<not> truthy (renderedImageUrl bare_item)"
    "\<not> truthy (shirtImageUrl bare_item)"
    by (simp_all add: bare_item_def)
  have i: "pages (st_doc (initial browser 20)) = [[]]"
    "page_width (st_doc (initial browser 20)) = 210"
    "page_count (st_doc (initial browser 20)) = 1"
    by (simp_all add: initial_def new_jsPDF_def browser_def page_count_def)
  from itemPages_no_images [OF a, of browser 20 False order_A1 "initial browser 20"] a i
  show ?thesis by simp
qed

text \<open>
  The claim C1 as stated fails: an order of one item without images gives a
  document of three pages (two of them empty), and the item itself adds two
  pages, not one.
\<close>

theorem itemPages_no_images_counterexample:
  "\<not> truthy (imageUrl bare_item) \<and> \<not> truthy (renderedImageUrl bare_item) \<and>
   \<not> truthy (shirtImageUrl bare_item) \<and>
   items order_A1 = [bare_item] \<and>
   pages (st_doc (snd (generatePDF browser True order_A1))) =
     [[], [], detailsElements order_A1 210 20 bare_item] \<and>
   page_count (st_doc (snd (generatePDF browser True order_A1))) = 3 \<and>
   pages (st_doc (snd (generateCombinedPDF browser True [order_A1] ''d''))) =
     [[], [], detailsElements order_A1 210 20 bare_item]"
  by (simp add: generatePDF_def generateCombinedPDF_def totalItems_def order_A1_def
        pages_of_item_without_urls bare_item_def report_def initial_def new_jsPDF_def
        browser_def page_count_def Let_def)

text \<open>
  C3. A combined generation calls the progress callback once per item, with
  \<open>(k, totalItems)\<close> for \<open>k = 1, ..., totalItems\<close> in this order, where
  \<open>totalItems\<close> is the sum of the item counts of all orders; for item counts
  \<open>[2, 3]\<close> the calls are \<open>(1,5), (2,5), (3,5), (4,5), (5,5)\<close>. Both
  generators, whatever the browser returns for the images.
\<close>

theorem combined_progress:
  "st_progress (snd (generateCombinedPDF e True orders dateKey)) =
     map (\<lambda>k. (k, totalItems orders)) [1 ..< totalItems orders + 1] \<and>
   st_progress (snd (generateCombinedPDF_flow e True orders dateKey)) =
     map (\<lambda>k. (k, totalItems orders)) [1 ..< totalItems orders + 1] \<and>
   totalItems orders = sum_list (map (\<lambda>ord. length (items ord)) orders) \<and>
   (map (\<lambda>ord. length (items ord)) orders = [2, 3] \<longrightarrow>
      st_progress (snd (generateCombinedPDF e True orders dateKey)) =
        [(1, 5), (2, 5), (3, 5), (4, 5), (5, 5)] \<and>
      st_progress (snd (generateCombinedPDF_flow e True orders dateKey)) =
        [(1, 5), (2, 5), (3, 5), (4, 5), (5, 5)])"
proof -
  let ?n = "totalItems orders"
  have paged: "st_progress (snd (generateCombinedPDF e True orders dateKey)) = ticks 0 ?n ?n"
    using combined_orders_progress [of e ?n orders 0 "initial e 20"]
    by (auto simp: generateCombinedPDF_def Let_def st_progress_initial totalItems_itemCount
          split: prod.split)
  have flow: "st_progress (snd (generateCombinedPDF_flow e True orders dateKey)) = ticks 0 ?n ?n"
    using combined_orders_flow_progress [of e ?n 0 orders 0 "initial e 20"]
    by (auto simp: generateCombinedPDF_flow_def Let_def st_progress_initial totalItems_itemCount
          split: prod.split)
  have t: "ticks 0 ?n ?n = map (\<lambda>k. (k, ?n)) [1 ..< ?n + 1]"
    by (rule ticks_from_0)
  have s: "?n = sum_list (map (\<lambda>ord. length (items ord)) orders)"
    by (simp add: totalItems_itemCount itemCount_def)
  have five: "ticks 0 5 5 = [(1, 5), (2, 5), (3, 5), (4, 5), (5, 5)]"
    by (simp add: ticks_def upt_rec)
  have ex: "ticks 0 ?n ?n = [(1, 5), (2, 5), (3, 5), (4, 5), (5, 5)]"
    if "map (\<lambda>ord. length (items ord)) orders = [2, 3]"
  proof -
    from that s have "?n = 5" by simp
    with five show ?thesis by simp
  qed
  show ?thesis
  proof (intro conjI impI)
    show "st_progress (snd (generateCombinedPDF e True orders dateKey)) =
            map (\<lambda>k. (k, ?n)) [1 ..< ?n + 1]"
      by (simp only: paged t)
    show "st_progress (snd (generateCombinedPDF_flow e True orders dateKey)) =
            map (\<lambda>k. (k, ?n)) [1 ..< ?n + 1]"
      by (simp only: flow t)
    show "?n = sum_list (map (\<lambda>ord. length (items ord)) orders)"
      by (rule s)
  next
    assume a: "map (\<lambda>ord. length (items ord)) orders = [2, 3]"
    show "st_progress (snd (generateCombinedPDF e True orders dateKey)) =
            [(1, 5), (2, 5), (3, 5), (4, 5), (5, 5)]"
      by (simp only: paged ex [OF a])
  next
    assume a: "map (\<lambda>ord. length (items ord)) orders = [2, 3]"
    show "st_progress (snd (generateCombinedPDF_flow e True orders dateKey)) =
            [(1, 5), (2, 5), (3, 5), (4, 5), (5, 5)]"
      by (simp only: flow ex [OF a])
  qed
qed

theorem combined_progress_witness:
  "map (\<lambda>ord. length (items ord)) [order_B2, order_B3] = [2, 3] \<and>
   totalItems [order_B2, order_B3] = 5 \<and>
   st_progress (snd (generateCombinedPDF browser True [order_B2, order_B3] ''12 Jan 25'')) =
     [(1, 5), (2, 5), (3, 5), (4, 5), (5, 5)] \<and>
   st_progress (snd (generateCombinedPDF_flow browser True [order_B2, order_B3] ''12 Jan 25'')) =
     [(1, 5), (2, 5), (3, 5), (4, 5), (5, 5)]"
proof -
  have a: "map (\<lambda>ord. length (items ord)) [order_B2, order_B3] = [2, 3]"
    by (simp add: order_B2_def order_B3_def)
  note run = combined_progress [of browser "[order_B2, order_B3]" "''12 Jan 25''"]
  from run have "totalItems [order_B2, order_B3] =
      sum_list (map (\<lambda>ord. length (items ord)) [order_B2, order_B3])"
    by blast
  then have n: "totalItems [order_B2, order_B3] = 5"
    by (simp only: a) simp
  from run a have
    "st_progress (snd (generateCombinedPDF browser True [order_B2, order_B3] ''12 Jan 25'')) =
       [(1, 5), (2, 5), (3, 5), (4, 5), (5, 5)] \<and>
     st_progress (snd (generateCombinedPDF_flow browser True [order_B2, order_B3] ''12 Jan 25'')) =
       [(1, 5), (2, 5), (3, 5), (4, 5), (5, 5)]"
    by blast
  with a n show ?thesis by blast
qed

text \<open>
  C4. For an image with positive pixel dimensions the fill-page placement
  scales by the larger of the two per-axis factors (so the scaled image
  covers the page less a margin of 5 on both axes), then clamps: neither
  final dimension exceeds the page, the aspect ratio is the image's, and the
  result is centred on both axes. On a page whose sides differ by at least
  10 units (A4: 210 x 297) the larger final dimension is at least the
  smaller page dimension.
\<close>

theorem placeFillPage_cover:
  assumes "0 < iw" and "0 < ih"
  shows
    "sizing iw ih = (iw, ih) \<and>
     (case (placeFillPage pw ph iw ih, coverSize pw ph iw ih) of
        ((xPos, yPos, finalWidth, finalHeight), (w0, h0)) \<Rightarrow>
          w0 = of_nat iw * max ((pw - 10) / of_nat iw) ((ph - 10) / of_nat ih) \<and>
          h0 = of_nat ih * max ((pw - 10) / of_nat iw) ((ph - 10) / of_nat ih) \<and>
          pw - 10 \<le> w0 \<and> ph - 10 \<le> h0 \<and>
          (w0 \<le> pw \<and> h0 \<le> ph \<longrightarrow> finalWidth = w0 \<and> finalHeight = h0) \<and>
          finalWidth \<le> pw \<and> finalHeight \<le> ph \<and>
          finalWidth * of_nat ih = finalHeight * of_nat iw \<and>
          xPos = (pw - finalWidth) / 2 \<and> yPos = (ph - finalHeight) / 2 \<and>
          (min pw ph + 10 \<le> max pw ph \<longrightarrow> min pw ph \<le> max finalWidth finalHeight))"
proof -
  obtain x y fw fh where r: "placeFillPage pw ph iw ih = (x, y, fw, fh)"
    by (cases "placeFillPage pw ph iw ih") auto
  obtain w0 h0 where u: "coverSize pw ph iw ih = (w0, h0)"
    by (cases "coverSize pw ph iw ih") auto
  note g = placeFillPage_geometry [OF assms r u]
  have s: "sizing iw ih = (iw, ih)"
    using assms by (simp add: sizing_def)
  have c: "w0 = of_nat iw * max ((pw - 10) / of_nat iw) ((ph - 10) / of_nat ih)"
    "h0 = of_nat ih * max ((pw - 10) / of_nat iw) ((ph - 10) / of_nat ih)"
    using u by (simp_all add: coverSize_def Let_def)
  show ?thesis
    unfolding r u using s c g by simp
qed

theorem placeFillPage_cover_witness:
  "(0::nat) < 800 \<and> (0::nat) < 600 \<and> (0::nat) < 210 \<and> (0::nat) < 297 \<and>
   min (210::rat) 297 + 10 \<le> max 210 297 \<and>
   placeFillPage 210 297 800 600 = (0, 279 / 4, 210, 315 / 2) \<and>
   coverSize 210 297 800 600 = (1148 / 3, 287) \<and>
   min (210::rat) 297 \<le> max 210 (315 / 2) \<and>
   coverSize 210 297 210 297 = (20090 / 99, 287) \<and>
   (20090 / 99 :: rat) \<le> 210 \<and> (287::rat) \<le> 297 \<and>
   placeFillPage 210 297 210 297 = (350 / 99, 5, 20090 / 99, 287)"
proof -
  have a: "(0::nat) < 800" "(0::nat) < 600" by simp_all
  have b: "(0::nat) < 210" "(0::nat) < 297" by simp_all
  have p: "placeFillPage 210 297 800 600 = (0, 279 / 4, 210, 315 / 2)"
    by (simp add: placeFillPage_def Let_def)
  have c: "coverSize 210 297 800 600 = (1148 / 3, 287)"
    by (simp add: coverSize_def Let_def)
  have c': "coverSize 210 297 210 297 = (20090 / 99, 287)"
    by (simp add: coverSize_def Let_def)
  obtain x y fw fh where r: "placeFillPage 210 297 210 297 = (x, y, fw, fh)"
    by (cases "placeFillPage 210 297 210 297") auto
  from placeFillPage_cover [OF b, of 210 297] have "fw = 20090 / 99 \<and> fh = 287"
    "x = (210 - fw) / 2" "y = (297 - fh) / 2"
    unfolding r c' by simp_all
  then have p': "placeFillPage 210 297 210 297 = (350 / 99, 5, 20090 / 99, 287)"
    using r by simp
  from placeFillPage_cover [OF a, of 210 297] show ?thesis
    unfolding p c p' c' by simp
qed

subsection \<open>Elements and barcodes of a document\<close>

lemma concat_put: "concat (put el ps) = concat ps @ [el]"
  by (induction el ps rule: put.induct) auto

lemma elements_place: "elements (place el d) = elements d @ [el]"
  by (simp add: elements_def place_def concat_put)

lemma elements_addPage [simp]: "elements (addPage d) = elements d"
  by (simp add: elements_def addPage_def)

lemma elements_new_jsPDF [simp]: "elements (new_jsPDF w h) = []"
  by (simp add: elements_def new_jsPDF_def)

lemma barcodes_append: "barcodes (xs @ ys) = barcodes xs @ barcodes ys"
  by (induction xs rule: barcodes.induct) auto

lemma barcodes_itemBlocks:
  "barcodes (elements (st_doc (itemBlocks e ord i st it))) =
     barcodes (elements (st_doc st)) @ [BarcodeStandard (barcodeText ord i)]"
  by (simp add: itemBlocks_def separatorBlock_eq barcodeBlock_eq largeCustomImage_eq
        itemHeader_eq Let_def elements_place barcodes_append split: option.split)

lemma barcodes_report [simp]: "st_doc (report cb k n st) = st_doc st"
  by (simp add: report_def)

lemma barcodes_flow_loop:
  "barcodes (elements (st_doc (generatePDF_flow_loop e cb ord i its st))) =
     barcodes (elements (st_doc st)) @
     map (\<lambda>j. BarcodeStandard (barcodeText ord j)) [i ..< i + length its]"
proof (induction its arbitrary: i st)
  case Nil
  show ?case by simp
next
  case (Cons it its)
  have "[i ..< i + length (it # its)] = i # [i + 1 ..< (i + 1) + length its]"
    by (simp add: upt_rec)
  then show ?case
    by (simp add: Cons.IH barcodes_itemBlocks)
qed

lemma elements_visualPage:
  "barcodes (elements (st_doc (visualPage e m later st it))) = barcodes (elements (st_doc st))"
  by (simp add: visualPage_def Let_def addImage_def elements_place barcodes_append
        split: option.split probe.split prod.split)

lemma elements_garmentPage:
  "barcodes (elements (st_doc (garmentPage e m st it))) = barcodes (elements (st_doc st))"
  by (simp add: garmentPage_def Let_def addImage_def elements_place barcodes_append
        split: option.split)

lemma elements_detailsPage:
  "elements (st_doc (detailsPage ord m st it)) =
     elements (st_doc st) @ detailsElements ord (page_width (st_doc st)) m it"
  by (simp add: elements_def pages_detailsPage)

lemma barcodes_detailsElements:
  "barcodes (detailsElements ord w m it) = [BarcodeHighQuality (orderId ord)]"
  by (simp add: detailsElements_def)

lemma barcodes_itemPages:
  "barcodes (elements (st_doc (itemPages e m later ord st it))) =
     barcodes (elements (st_doc st)) @ [BarcodeHighQuality (orderId ord)]"
  by (simp add: itemPages_def elements_detailsPage barcodes_append barcodes_detailsElements
        elements_garmentPage elements_visualPage)

lemma barcodes_paged_loop:
  "barcodes (elements (st_doc (generatePDF_loop e cb ord i its st))) =
     barcodes (elements (st_doc st)) @ replicate (length its) (BarcodeHighQuality (orderId ord))"
proof (induction its arbitrary: i st)
  case Nil
  show ?case by simp
next
  case (Cons it its)
  show ?case
    by (simp add: Cons.IH barcodes_itemPages replicate_app_Cons_same)
qed

lemma elements_initial [simp]: "elements (st_doc (initial e m)) = []"
  by (simp add: initial_def)

subsection \<open>Claims about barcodes, the cursor and failed loads\<close>

text \<open>
  C7, as amended. In the flowing generator the barcode of the item at index
  \<open>i\<close> (from 0) encodes \<open>orderId-(i+1)\<close>; in the earliest generator it
  encodes \<open>orderId-sku-(i+1)\<close>; in the three-page engine the high-quality
  barcode encodes the order identifier alone and is placed once on every
  details page, so once for each item of the order.
\<close>

theorem barcode_payloads:
  "barcodes (elements (st_doc (snd (generatePDF_flow e cb ord)))) =
     map (\<lambda>i. BarcodeStandard (orderId ord @ ''-'' @ show_nat (i + 1)))
       [0 ..< length (items ord)] \<and>
   barcodeText_legacy ord it i =
     orderId ord @ ''-'' @ js_String (sku it) @ ''-'' @ show_nat (i + 1) \<and>
   barcodes (elements (st_doc (snd (generatePDF e cb ord)))) =
     replicate (length (items ord)) (BarcodeHighQuality (orderId ord)) \<and>
   barcodes (detailsElements ord w m it) = [BarcodeHighQuality (orderId ord)]"
proof -
  have "barcodes (elements (st_doc (snd (generatePDF_flow e cb ord)))) =
      map (\<lambda>j. BarcodeStandard (barcodeText ord j)) [0 ..< 0 + length (items ord)]"
    unfolding generatePDF_flow_def Let_def snd_conv barcodes_flow_loop by simp
  moreover have "barcodes (elements (st_doc (snd (generatePDF e cb ord)))) =
      replicate (length (items ord)) (BarcodeHighQuality (orderId ord))"
    unfolding generatePDF_def Let_def snd_conv barcodes_paged_loop by simp
  ultimately show ?thesis
    by (simp add: barcodeText_def barcodeText_legacy_def barcodes_detailsElements)
qed

theorem barcode_payloads_witness:
  "barcodes (elements (st_doc (snd (generatePDF_flow browser True order_B2)))) =
     [BarcodeStandard ''B2-1'', BarcodeStandard ''B2-2''] \<and>
   barcodes (elements (st_doc (snd (generatePDF browser True order_B2)))) =
     [BarcodeHighQuality ''B2'', BarcodeHighQuality ''B2'']"
proof -
  have n: "show_nat (Suc 0) = ''1''" "show_nat (Suc (Suc 0)) = ''2''"
    by (simp_all add: show_nat.simps digit_def)
  have l: "items order_B2 = [wide_item, lost_item]" "orderId order_B2 = ''B2''"
    by (simp_all add: order_B2_def)
  have u: "[0 ..< length (items order_B2)] = [0, 1]"
    by (simp add: l upt_rec)
  from barcode_payloads [of browser True order_B2] show ?thesis
    by (simp add: u n l)
qed

text \<open>
  The claim C7 as stated fails on the earliest generator: the barcode of the
  first item of order \<open>B2\<close>, whose SKU is \<open>S\<close>, encodes \<open>B2-S-1\<close>.
\<close>

theorem barcode_legacy_counterexample:
  "barcodeText_legacy order_B2 wide_item 0 = ''B2-S-1'' \<and> ''B2-S-1'' \<noteq> ''B2-1''"
  by (simp add: barcodeText_legacy_def order_B2_def wide_item_def bare_item_def
        show_nat.simps digit_def)

text \<open>
  C2, as amended. In the flowing generator every placement asks
  \<open>ensureSpace\<close> first: a block whose footprint would pass
  \<open>pageHeight - margin\<close> is placed at the top margin of a new page, whatever
  its height. Starting from a cursor at or below the top margin, on a page of
  height at least 90, the cursor lies within \<open>[margin, pageHeight - margin]\<close>
  immediately after a header, a barcode, a separator and an order separator.
  After a custom image of display height \<open>h\<close> it lies within that range when
  \<open>h\<close> and the gap of 10 after it fit: below the cursor, or on the new page.
\<close>

theorem flow_cursor:
  assumes "20 \<le> st_y st" and "90 \<le> page_height (st_doc st)"
  shows
    "within_margins 20 (itemHeader ord i st) \<and>
     within_margins 20 (barcodeBlock ord i st) \<and>
     within_margins 20 (separatorBlock st) \<and>
     within_margins 20 (orderSeparator st) \<and>
     (page_height (st_doc st) - 20 < st_y st + 30 \<longrightarrow>
        pages (st_doc (itemHeader ord i st)) =
          pages (st_doc st) @ [[TextEl (headerText ord i) (page_width (st_doc st) / 2) 20]]) \<and>
     (page_height (st_doc st) - 20 < st_y st + 60 \<longrightarrow>
        pages (st_doc (barcodeBlock ord i st)) =
          pages (st_doc st) @
          [[BarcodeEl (BarcodeStandard (barcodeText ord i))
              ((page_width (st_doc st) - 85) / 2) 20 85 35]]) \<and>
     (page_height (st_doc st) - 20 < st_y st + 15 \<longrightarrow>
        pages (st_doc (separatorBlock st)) =
          pages (st_doc st) @ [[LineEl 40 20 (page_width (st_doc st) - 40) 20]]) \<and>
     (page_height (st_doc st) - 20 < st_y st + 30 \<longrightarrow>
        pages (st_doc (orderSeparator st)) =
          pages (st_doc st) @ [[LineEl 40 20 (page_width (st_doc st) - 40) 20]]) \<and>
     (safeLoadCustomImage_flow e (js_or (imageUrl it) (renderedImageUrl it)) = Some img \<longrightarrow>
        (page_height (st_doc st) - 20 < st_y st + displayHeight (st_doc st) img \<longrightarrow>
           pages (st_doc (largeCustomImage e it st)) =
             pages (st_doc st) @
             [[ImageEl img 15 20 (page_width (st_doc st) - 30) (displayHeight (st_doc st) img)]] \<and>
           st_y (largeCustomImage e it st) = 20 + displayHeight (st_doc st) img + 10) \<and>
        (0 \<le> displayHeight (st_doc st) img \<and>
         (st_y st + displayHeight (st_doc st) img + 10 \<le> page_height (st_doc st) - 20 \<or>
          page_height (st_doc st) - 20 < st_y st + displayHeight (st_doc st) img \<and>
          displayHeight (st_doc st) img + 10 \<le> page_height (st_doc st) - 40) \<longrightarrow>
         within_margins 20 (largeCustomImage e it st)))"
proof (intro conjI impI)
  show "within_margins 20 (itemHeader ord i st)"
    using assms by (simp add: itemHeader_eq within_margins_def)
  show "within_margins 20 (barcodeBlock ord i st)"
    using assms by (simp add: barcodeBlock_eq within_margins_def)
  show "within_margins 20 (separatorBlock st)"
    using assms by (simp add: separatorBlock_eq within_margins_def)
  show "within_margins 20 (orderSeparator st)"
    using assms by (simp add: orderSeparator_eq within_margins_def)
next
  assume "page_height (st_doc st) - 20 < st_y st + 30"
  then show "pages (st_doc (itemHeader ord i st)) =
      pages (st_doc st) @ [[TextEl (headerText ord i) (page_width (st_doc st) / 2) 20]]"
    by (simp add: itemHeader_eq pages_place pages_addPage put_snoc)
next
  assume "page_height (st_doc st) - 20 < st_y st + 60"
  then show "pages (st_doc (barcodeBlock ord i st)) =
      pages (st_doc st) @
      [[BarcodeEl (BarcodeStandard (barcodeText ord i))
          ((page_width (st_doc st) - 85) / 2) 20 85 35]]"
    by (simp add: barcodeBlock_eq pages_place pages_addPage put_snoc)
next
  assume "page_height (st_doc st) - 20 < st_y st + 15"
  then show "pages (st_doc (separatorBlock st)) =
      pages (st_doc st) @ [[LineEl 40 20 (page_width (st_doc st) - 40) 20]]"
    by (simp add: separatorBlock_eq pages_place pages_addPage put_snoc)
next
  assume "page_height (st_doc st) - 20 < st_y st + 30"
  then show "pages (st_doc (orderSeparator st)) =
      pages (st_doc st) @ [[LineEl 40 20 (page_width (st_doc st) - 40) 20]]"
    by (simp add: orderSeparator_eq pages_place pages_addPage put_snoc)
next
  assume l: "safeLoadCustomImage_flow e (js_or (imageUrl it) (renderedImageUrl it)) = Some img"
    and b: "page_height (st_doc st) - 20 < st_y st + displayHeight (st_doc st) img"
  show "pages (st_doc (largeCustomImage e it st)) =
      pages (st_doc st) @
      [[ImageEl img 15 20 (page_width (st_doc st) - 30) (displayHeight (st_doc st) img)]]"
    using l b by (simp add: largeCustomImage_eq Let_def pages_place pages_addPage put_snoc)
  show "st_y (largeCustomImage e it st) = 20 + displayHeight (st_doc st) img + 10"
    using l b by (simp add: largeCustomImage_eq Let_def)
next
  assume l: "safeLoadCustomImage_flow e (js_or (imageUrl it) (renderedImageUrl it)) = Some img"
    and f: "0 \<le> displayHeight (st_doc st) img \<and>
         (st_y st + displayHeight (st_doc st) img + 10 \<le> page_height (st_doc st) - 20 \<or>
          page_height (st_doc st) - 20 < st_y st + displayHeight (st_doc st) img \<and>
          displayHeight (st_doc st) img + 10 \<le> page_height (st_doc st) - 40)"
  show "within_margins 20 (largeCustomImage e it st)"
    using l f assms by (auto simp: largeCustomImage_eq Let_def within_margins_def)
qed

theorem flow_cursor_witness:
  "20 \<le> st_y near_bottom \<and> 90 \<le> page_height (st_doc near_bottom) \<and>
   page_height (st_doc near_bottom) - 20 < st_y near_bottom + 15 \<and>
   safeLoadCustomImage_flow browser (js_or (imageUrl wide_item) (renderedImageUrl wide_item)) =
     Some wide_jpeg \<and>
   page_height (st_doc near_bottom) - 20 < st_y near_bottom + displayHeight (st_doc near_bottom) wide_jpeg \<and>
   0 \<le> displayHeight (st_doc near_bottom) wide_jpeg \<and>
   displayHeight (st_doc near_bottom) wide_jpeg + 10 \<le> page_height (st_doc near_bottom) - 40 \<and>
   within_margins 20 (itemHeader order_B2 0 near_bottom) \<and>
   within_margins 20 (barcodeBlock order_B2 0 near_bottom) \<and>
   within_margins 20 (separatorBlock near_bottom) \<and>
   within_margins 20 (orderSeparator near_bottom) \<and>
   within_margins 20 (largeCustomImage browser wide_item near_bottom) \<and>
   pages (st_doc (separatorBlock near_bottom)) = [[], [LineEl 40 20 170 20]] \<and>
   pages (st_doc (orderSeparator near_bottom)) = [[], [LineEl 40 20 170 20]] \<and>
   pages (st_doc (largeCustomImage browser wide_item near_bottom)) =
     [[], [ImageEl wide_jpeg 15 20 180 45]]"
proof -
  have a: "20 \<le> st_y near_bottom" "90 \<le> page_height (st_doc near_bottom)"
    by (simp_all add: near_bottom_def initial_def new_jsPDF_def browser_def)
  have v: "st_y near_bottom = 270" "page_height (st_doc near_bottom) = 297"
    "page_width (st_doc near_bottom) = 210" "pages (st_doc near_bottom) = [[]]"
    by (simp_all add: near_bottom_def initial_def new_jsPDF_def browser_def)
  have l: "safeLoadCustomImage_flow browser (js_or (imageUrl wide_item) (renderedImageUrl wide_item)) =
      Some wide_jpeg"
    by (simp add: safeLoadCustomImage_flow_def loadImageAsBase64_flow_def js_or_def
          wide_item_def bare_item_def browser_def wide_png_def wide_jpeg_def)
  have h: "displayHeight (st_doc near_bottom) wide_jpeg = 45"
    by (simp add: displayHeight_def v wide_jpeg_def)
  from flow_cursor [OF a, of order_B2 0 browser wide_item wide_jpeg] l
  show ?thesis by (simp add: v h)
qed

text \<open>
  The claim C2 as stated fails on a tall image: after the header of the
  first item (cursor 35) an image shown 360 units high triggers a page
  break, is placed at the top margin of an A4 page 297 units high, and
  leaves the cursor at 390.
\<close>

theorem flow_cursor_counterexample:
  "safeLoadCustomImage_flow browser (js_or (imageUrl tall_item) (renderedImageUrl tall_item)) =
     Some tall_jpeg \<and>
   st_y (itemHeader order_T 0 (initial browser 20)) = 35 \<and>
   last (pages (st_doc (largeCustomImage browser tall_item
                  (itemHeader order_T 0 (initial browser 20))))) =
     [ImageEl tall_jpeg 15 20 180 360] \<and>
   page_height (st_doc (largeCustomImage browser tall_item
                  (itemHeader order_T 0 (initial browser 20)))) = 297 \<and>
   st_y (largeCustomImage browser tall_item (itemHeader order_T 0 (initial browser 20))) = 390 \<and>
   \<not> within_margins 20
       (largeCustomImage browser tall_item (itemHeader order_T 0 (initial browser 20)))"
proof -
  have l: "safeLoadCustomImage_flow browser (js_or (imageUrl tall_item) (renderedImageUrl tall_item)) =
      Some tall_jpeg"
    by (simp add: safeLoadCustomImage_flow_def loadImageAsBase64_flow_def js_or_def
          tall_item_def bare_item_def browser_def tall_png_def tall_jpeg_def)
  have i: "st_y (initial browser 20) = 20" "page_height (st_doc (initial browser 20)) = 297"
    "page_width (st_doc (initial browser 20)) = 210"
    by (simp_all add: initial_def new_jsPDF_def browser_def)
  have hd: "st_y (itemHeader order_T 0 (initial browser 20)) = 35"
    "page_height (st_doc (itemHeader order_T 0 (initial browser 20))) = 297"
    "page_width (st_doc (itemHeader order_T 0 (initial browser 20))) = 210"
    by (simp_all add: itemHeader_eq i)
  have h: "displayHeight (st_doc (itemHeader order_T 0 (initial browser 20))) tall_jpeg = 360"
    by (simp add: displayHeight_def hd tall_jpeg_def)
  show ?thesis
    by (simp add: l hd h largeCustomImage_eq Let_def within_margins_def pages_place
          pages_addPage put_snoc)
qed

text \<open>
  C10. When the image behind a URL cannot be acquired, the transform rejects
  and every safe loader returns \<open>null\<close> (here \<open>None\<close>) instead. The
  generators then place nothing for that image and go on: the three-page
  engine leaves the visual page (or the garment page) without an element and
  still ends the item with its details page; the flowing generator leaves
  the image block out and places the barcode and the separator. Every item
  of the order is processed, whatever fails to load.
\<close>

theorem failed_load_skipped:
  assumes "image_onload e (js_String url) = None"
  shows
    "loadImageAsBase64 e (js_String url) q t f = Inl (LoadFailed (js_String url)) \<and>
     loadImageAsBase64_flow e (js_String url) q t = Inl (LoadFailed (js_String url)) \<and>
     safeLoadImage e url q = None \<and> safeLoadCustomImage e url = None \<and>
     safeLoadImage_flow e url q = None \<and> safeLoadCustomImage_flow e url = None \<and>
     (js_or (imageUrl it) (renderedImageUrl it) = url \<longrightarrow>
        elements (st_doc (visualPage e m later st it)) = elements (st_doc st) \<and>
        largeCustomImage e it st = st \<and>
        itemBlocks e ord i st it = separatorBlock (barcodeBlock ord i (itemHeader ord i st))) \<and>
     (shirtImageUrl it = url \<longrightarrow>
        garmentPage e m st it = st\<lparr>st_doc := addPage (st_doc st), st_y := m\<rparr>) \<and>
     last (pages (st_doc (itemPages e m later ord st it))) =
       detailsElements ord (page_width (st_doc st)) m it \<and>
     st_progress (snd (generatePDF e True ord)) =
       map (\<lambda>k. (k, length (items ord))) [1 ..< length (items ord) + 1] \<and>
     st_progress (snd (generatePDF_flow e True ord)) =
       map (\<lambda>k. (k, length (items ord))) [1 ..< length (items ord) + 1]"
proof -
  have raw: "loadImageAsBase64 e (js_String url) q t f = Inl (LoadFailed (js_String url))"
    "loadImageAsBase64_flow e (js_String url) q t = Inl (LoadFailed (js_String url))" for q t f
    using assms by (simp_all add: loadImageAsBase64_def loadImageAsBase64_flow_def)
  have safe: "safeLoadImage e url q = None" "safeLoadCustomImage e url = None"
    "safeLoadImage_flow e url q = None" "safeLoadCustomImage_flow e url = None"
    by (simp_all add: safeLoadImage_def safeLoadCustomImage_def safeLoadImage_flow_def
          safeLoadCustomImage_flow_def raw)
  have visual: "elements (st_doc (visualPage e m later st it)) = elements (st_doc st)"
    if "js_or (imageUrl it) (renderedImageUrl it) = url"
  proof (cases "truthy url")
    case True
    with that safe(2) show ?thesis by (simp add: visualPage_no_image)
  next
    case False
    with that show ?thesis by (simp add: visualPage_def)
  qed
  have flow: "largeCustomImage e it st = st"
    if "js_or (imageUrl it) (renderedImageUrl it) = url" for st
    using that safe(4) by (simp add: largeCustomImage_eq)
  have garment: "garmentPage e m st it = st\<lparr>st_doc := addPage (st_doc st), st_y := m\<rparr>"
    if "shirtImageUrl it = url"
    using that safe(2) by (simp add: garmentPage_no_image)
  have p1: "st_progress (snd (generatePDF e True ord)) =
      map (\<lambda>k. (k, length (items ord))) [1 ..< length (items ord) + 1]"
    by (simp add: generatePDF_def Let_def generatePDF_loop_progress st_progress_initial
          ticks_from_0)
  have p2: "st_progress (snd (generatePDF_flow e True ord)) =
      map (\<lambda>k. (k, length (items ord))) [1 ..< length (items ord) + 1]"
    by (simp add: generatePDF_flow_def Let_def generatePDF_flow_loop_progress st_progress_initial
          ticks_from_0)
  show ?thesis
    using raw safe visual flow garment p1 p2
    by (simp add: itemBlocks_def last_pages_itemPages)
qed

theorem failed_load_skipped_witness:
  "image_onload browser (js_String (Some ''gone.png'')) = None \<and>
   js_or (imageUrl lost_item) (renderedImageUrl lost_item) = Some ''gone.png'' \<and>
   shirtImageUrl lost_item = Some ''gone.png'' \<and>
   safeLoadCustomImage browser (Some ''gone.png'') = None \<and>
   safeLoadCustomImage_flow browser (Some ''gone.png'') = None \<and>
   elements (st_doc (visualPage browser 20 True near_bottom lost_item)) = [] \<and>
   largeCustomImage browser lost_item near_bottom = near_bottom \<and>
   last (pages (st_doc (itemPages browser 20 True order_B2 near_bottom lost_item))) =
     detailsElements order_B2 210 20 lost_item \<and>
   st_progress (snd (generatePDF browser True order_B2)) = [(1, 2), (2, 2)] \<and>
   st_progress (snd (generatePDF_flow browser True order_B2)) = [(1, 2), (2, 2)]"
proof -
  have a: "image_onload browser (js_String (Some ''gone.png'')) = None"
    by (simp add: browser_def)
  have u: "js_or (imageUrl lost_item) (renderedImageUrl lost_item) = Some ''gone.png''"
    "shirtImageUrl lost_item = Some ''gone.png''"
    by (simp_all add: lost_item_def bare_item_def js_or_def)
  have v: "elements (st_doc near_bottom) = []" "page_width (st_doc near_bottom) = 210"
    by (simp_all add: near_bottom_def initial_def new_jsPDF_def browser_def elements_def)
  have n: "length (items order_B2) = 2" "[Suc 0 ..< 3] = [Suc 0, 2]"
    by (simp_all add: order_B2_def upt_rec)
  note run = failed_load_skipped [OF a, of "1 / 2" True PNG lost_item 20 True near_bottom
      order_B2 0]
  from run u have
    "elements (st_doc (visualPage browser 20 True near_bottom lost_item)) =
       elements (st_doc near_bottom)"
    "largeCustomImage browser lost_item near_bottom = near_bottom"
    "safeLoadCustomImage browser (Some ''gone.png'') = None"
    "safeLoadCustomImage_flow browser (Some ''gone.png'') = None"
    "last (pages (st_doc (itemPages browser 20 True order_B2 near_bottom lost_item))) =
       detailsElements order_B2 (page_width (st_doc near_bottom)) 20 lost_item"
    "st_progress (snd (generatePDF browser True order_B2)) =
       map (\<lambda>k. (k, length (items order_B2))) [1 ..< length (items order_B2) + 1]"
    "st_progress (snd (generatePDF_flow browser True order_B2)) =
       map (\<lambda>k. (k, length (items order_B2))) [1 ..< length (items order_B2) + 1]"
    by blast+
  then show ?thesis
    using a u by (simp add: v n)
qed

end
